theory Spec2Isabelle
  imports Complex_Main "HOL-Library.AList" "HOL-Library.Sublist" "HOL-Library.Log_Nat"
begin

section \<open>Configuration\<close>

text \<open>
  \<^verbatim>\<open>config.json\<close> is read once. Each entry of its \<^verbatim>\<open>cameras\<close> list has the keys
  \<^verbatim>\<open>id\<close>, \<^verbatim>\<open>name\<close>, \<^verbatim>\<open>rtsp_url\<close> and \<^verbatim>\<open>enabled\<close>; the recorder also reads
  \<^verbatim>\<open>recordings_path\<close>, \<^verbatim>\<open>segment_duration\<close> and \<^verbatim>\<open>ffmpeg_reconnect_delay\<close>.
  Wall-clock time (\<^verbatim>\<open>time.time()\<close>) and durations are real numbers.
\<close>

record camera =
  cfg_id :: string
  cfg_name :: string
  cfg_rtsp_url :: string
  cfg_enabled :: bool

record app_config =
  cameras :: "camera list"
  recordings_path :: string
  segment_duration :: nat
  ffmpeg_reconnect_delay :: real

section \<open>Exceptions and dictionaries\<close>

text \<open>
  The exceptions that the modelled statements can raise. \<open>KeyError\<close>, \<open>FileNotFoundError\<close>,
  \<open>OSError\<close> and \<open>ValueError\<close> are subclasses of Python's \<^verbatim>\<open>Exception\<close>; \<open>SystemExit\<close>
  and \<open>KeyboardInterrupt\<close> are not, so \<^verbatim>\<open>except Exception\<close> lets them through.
\<close>

datatype exn =
    KeyError string
  | FileNotFoundError
  | OSError string
  | ValueError string
  | SystemExit
  | KeyboardInterrupt

fun is_Exception :: "exn \<Rightarrow> bool" where
  "is_Exception SystemExit = False"
| "is_Exception KeyboardInterrupt = False"
| "is_Exception _ = True"

text \<open>
  \<^verbatim>\<open>str(e)\<close>, as the handler of line 145 prints it: the message of the exception, and for
  a \<^verbatim>\<open>KeyError\<close> the \<^verbatim>\<open>repr\<close> of the key, which is the key between single quotes (for
  a key without quotes or escapes in it).
\<close>

fun exn_text :: "exn \<Rightarrow> string" where
  "exn_text (KeyError k) = CHR 0x27 # k @ [CHR 0x27]"
| "exn_text FileNotFoundError = ''FileNotFoundError''"
| "exn_text (OSError m) = m"
| "exn_text (ValueError m) = m"
| "exn_text SystemExit = ''SystemExit''"
| "exn_text KeyboardInterrupt = ''KeyboardInterrupt''"

text \<open>
  A Python \<^verbatim>\<open>dict\<close> keyed by camera id is an association list in insertion order.
  \<^verbatim>\<open>k in d\<close>, \<^verbatim>\<open>d[k]\<close> (raises \<^verbatim>\<open>KeyError\<close> on a missing key), \<^verbatim>\<open>d[k] = v\<close>
  and \<^verbatim>\<open>del d[k]\<close> (raises \<^verbatim>\<open>KeyError\<close> on a missing key):
\<close>

definition dict_in :: "string \<Rightarrow> (string \<times> 'v) list \<Rightarrow> bool" where
  "dict_in k d = (map_of d k \<noteq> None)"

definition dict_get :: "(string \<times> 'v) list \<Rightarrow> string \<Rightarrow> exn + 'v" where
  "dict_get d k = (case map_of d k of None \<Rightarrow> Inl (KeyError k) | Some v \<Rightarrow> Inr v)"

definition dict_set :: "string \<Rightarrow> 'v \<Rightarrow> (string \<times> 'v) list \<Rightarrow> (string \<times> 'v) list" where
  "dict_set k v d = AList.update k v d"

definition dict_del :: "(string \<times> 'v) list \<Rightarrow> string \<Rightarrow> exn + (string \<times> 'v) list" where
  "dict_del d k = (if dict_in k d then Inr (AList.delete k d) else Inl (KeyError k))"

section \<open>The recorder (\<^verbatim>\<open>recorder.py\<close>)\<close>

subsection \<open>State and environment\<close>

text \<open>
  What the recorder prints, one constructor per \<^verbatim>\<open>print\<close> statement of the modelled
  methods, with the values interpolated into the line.
\<close>

datatype message =
    AlreadyRecording string
  | StartingRecording string string
  | Url string
  | FfmpegFailedImmediately
  | Stdout string
  | Stderr string
  | RecordingStarted nat
  | FfmpegNotFound
  | InstallHint
  | StartError string string
  | Stopping string nat
  | FileCompleted string string
  | RecordingFailed string string
  | Restarting string string
  | ActiveAtStart nat
  | Status nat real

text \<open>
  The observable effects of the recorder, in the order they happen: a printed line, a call
  of \<^verbatim>\<open>subprocess.Popen\<close> for a camera id, \<^verbatim>\<open>time.sleep(d)\<close>,
  \<^verbatim>\<open>process.communicate()\<close>, \<^verbatim>\<open>process.terminate()\<close>, a \<^verbatim>\<open>process.wait\<close> that
  blocked for \<open>d\<close> time units, and \<^verbatim>\<open>process.kill()\<close>.
\<close>

datatype effect =
    Print message
  | Popen string
  | Sleep real
  | Communicate nat
  | Terminate nat
  | Wait nat real
  | Kill nat

text \<open>
  The fields \<open>config\<close>, \<open>processes\<close> and \<open>running\<close> are those of \<^verbatim>\<open>RTSPRecorder.__init__\<close>.
  A \<^verbatim>\<open>Popen\<close> object is identified by a number (also used as its pid). The rest is the
  environment: \<open>status h\<close> is what \<^verbatim>\<open>h.poll()\<close> answers (\<open>None\<close> while the subprocess
  runs, its return code afterwards), \<open>next_handle\<close> numbers the next subprocess, \<open>now\<close> is
  the wall clock and \<open>trace\<close> the effects so far. Only sleeping and waiting take time.
\<close>

record recorder =
  config :: app_config
  processes :: "(string \<times> nat) list"
  running :: bool
  status :: "nat \<Rightarrow> int option"
  next_handle :: nat
  now :: real
  trace :: "effect list"

definition RTSPRecorder_init :: "app_config \<Rightarrow> real \<Rightarrow> recorder" where
  "RTSPRecorder_init cfg t =
     \<lparr>config = cfg, processes = [], running = True,
      status = (\<lambda>_. None), next_handle = 0, now = t, trace = []\<rparr>"

definition emit :: "effect list \<Rightarrow> recorder \<Rightarrow> recorder" where
  "emit es s = s\<lparr>trace := trace s @ es\<rparr>"


definition poll :: "recorder \<Rightarrow> nat \<Rightarrow> int option" where
  "poll s h = status s h"

text \<open>The effects that happened between an earlier state and a later one.\<close>

definition emitted :: "recorder \<Rightarrow> recorder \<Rightarrow> effect list" where
  "emitted s s' = drop (length (trace s)) (trace s')"

text \<open>
  What \<^verbatim>\<open>subprocess.Popen\<close> does is the environment's choice: it raises, or it returns a
  subprocess; \<open>Spawned st out err\<close> is a subprocess whose \<^verbatim>\<open>poll()\<close> answers \<open>st\<close> after the
  settle delay and whose pipes hold \<open>out\<close> and \<open>err\<close>.
\<close>

datatype launch = Raises exn | Spawned "int option" string string

text \<open>
  How a running subprocess reacts to \<^verbatim>\<open>terminate()\<close>: it exits \<open>d\<close> time units later
  (\<open>d\<close> is not negative in a real run) with a return code, or it never does.
\<close>

datatype reaction = ExitsAfter real int | Hangs

subsection \<open>Exceptions in the recorder\<close>

text \<open>
  A method of the recorder returns the state it leaves behind and the exception it
  raises, if any: what it has done before the raise stays done. \<open>and_then\<close> is the
  sequencing of two statements, the second skipped when the first raises.
\<close>

type_synonym outcome = "recorder \<times> exn option"

definition and_then :: "outcome \<Rightarrow> (recorder \<Rightarrow> outcome) \<Rightarrow> outcome" where
  "and_then r f = (case r of (s, None) \<Rightarrow> f s | (s, Some e) \<Rightarrow> (s, Some e))"

text \<open>
  \<^verbatim>\<open>time.sleep(d)\<close> raises \<^verbatim>\<open>ValueError\<close> for a negative \<open>d\<close>; otherwise it returns after
  \<open>d\<close> time units.
\<close>

definition slept :: "real \<Rightarrow> recorder \<Rightarrow> recorder" where
  "slept d s = emit [Sleep d] (s\<lparr>now := now s + d\<rparr>)"

definition sleep :: "real \<Rightarrow> recorder \<Rightarrow> outcome" where
  "sleep d s =
     (if d < 0 then (s, Some (ValueError ''sleep length must be non-negative''))
      else (slept d s, None))"

subsection \<open>\<^verbatim>\<open>start_recording\<close>\<close>

text \<open>
  The body of the \<^verbatim>\<open>try\<close> block (lines 116 to 139). An exception leaves the block at the
  \<^verbatim>\<open>Popen\<close> call, with the two lines above it already printed.
\<close>

definition start_recording_try :: "camera \<Rightarrow> launch \<Rightarrow> recorder \<Rightarrow> outcome" where
  "start_recording_try camera l s =
     (let camera_id = cfg_id camera;
          s1 = emit [Print (StartingRecording (cfg_name camera) camera_id),
                     Print (Url (cfg_rtsp_url camera)), Popen camera_id] s
      in case l of
           Raises e \<Rightarrow> (s1, Some e)
         | Spawned st out err \<Rightarrow>
             (let process = next_handle s1 in
              and_then
                (sleep 2 (s1\<lparr>next_handle := Suc process, status := (status s1)(process := st)\<rparr>))
                (\<lambda>s2. if poll s2 process \<noteq> None
                      then (emit [Communicate process, Print FfmpegFailedImmediately,
                                  Print (Stdout out), Print (Stderr err)] s2, None)
                      else (emit [Print (RecordingStarted process)]
                              (s2\<lparr>processes := dict_set camera_id process (processes s2)\<rparr>),
                            None))))"

text \<open>
  The guard of lines 111 to 113 (\<^verbatim>\<open>and\<close> short-circuits, so the handle is looked up
  only under a key that is present), then the \<^verbatim>\<open>try\<close> block with its two handlers:
  \<^verbatim>\<open>except FileNotFoundError\<close> first, \<^verbatim>\<open>except Exception\<close> second. An exception that
  neither handler catches propagates.
\<close>

definition start_recording :: "camera \<Rightarrow> launch \<Rightarrow> recorder \<Rightarrow> outcome" where
  "start_recording camera l s =
     (let camera_id = cfg_id camera in
      if (case map_of (processes s) camera_id of None \<Rightarrow> False | Some p \<Rightarrow> poll s p = None)
      then (emit [Print (AlreadyRecording camera_id)] s, None)
      else
        (case start_recording_try camera l s of
           (s', None) \<Rightarrow> (s', None)
         | (s', Some FileNotFoundError) \<Rightarrow> (emit [Print FfmpegNotFound, Print InstallHint] s', None)
         | (s', Some e) \<Rightarrow>
             if is_Exception e then (emit [Print (StartError camera_id (exn_text e))] s', None)
             else (s', Some e)))"

subsection \<open>\<^verbatim>\<open>stop_recording\<close> and \<^verbatim>\<open>stop_all_recordings\<close>\<close>

text \<open>
  Lines 158 to 162: \<^verbatim>\<open>terminate()\<close>, then \<^verbatim>\<open>wait(timeout=10)\<close>. If the subprocess exits
  within the timeout, \<^verbatim>\<open>wait\<close> returns then and its return code is known; otherwise
  \<^verbatim>\<open>wait\<close> raises \<^verbatim>\<open>TimeoutExpired\<close> after 10 time units and the handler calls
  \<^verbatim>\<open>kill()\<close>, which sends the signal and does not wait.
\<close>

definition terminate_and_wait :: "nat \<Rightarrow> reaction \<Rightarrow> recorder \<Rightarrow> recorder" where
  "terminate_and_wait process r s =
     (let s1 = emit [Terminate process] s
      in case r of
           ExitsAfter d rc \<Rightarrow>
             if d \<le> 10
             then emit [Wait process d]
                    (s1\<lparr>status := (status s1)(process := Some rc), now := now s1 + d\<rparr>)
             else emit [Wait process 10, Kill process] (s1\<lparr>now := now s1 + 10\<rparr>)
         | Hangs \<Rightarrow> emit [Wait process 10, Kill process] (s1\<lparr>now := now s1 + 10\<rparr>))"

definition stop_recording :: "string \<Rightarrow> reaction \<Rightarrow> recorder \<Rightarrow> outcome" where
  "stop_recording camera_id r s =
     (if dict_in camera_id (processes s) then
        (case dict_get (processes s) camera_id of
           Inl e \<Rightarrow> (s, Some e)
         | Inr process \<Rightarrow>
             (let s1 = (if poll s process = None
                        then terminate_and_wait process r
                               (emit [Print (Stopping camera_id process)] s)
                        else s)
              in case dict_del (processes s1) camera_id of
                   Inl e \<Rightarrow> (s1, Some e)
                 | Inr d \<Rightarrow> (s1\<lparr>processes := d\<rparr>, None)))
      else (s, None))"

text \<open>
  \<^verbatim>\<open>stop_all_recordings\<close> walks a snapshot of the keys; \<open>env k\<close> is the reaction of the
  subprocess of camera \<open>k\<close>.
\<close>

fun stop_keys :: "(string \<Rightarrow> reaction) \<Rightarrow> string list \<Rightarrow> recorder \<Rightarrow> outcome" where
  "stop_keys env [] s = (s, None)"
| "stop_keys env (k # ks) s = and_then (stop_recording k (env k) s) (stop_keys env ks)"

definition stop_all_recordings :: "(string \<Rightarrow> reaction) \<Rightarrow> recorder \<Rightarrow> outcome" where
  "stop_all_recordings env s = stop_keys env (map fst (processes s)) s"

subsection \<open>\<^verbatim>\<open>check_and_restart_recordings\<close>\<close>

text \<open>
  One iteration of the loop of lines 172 to 191, for one entry of the camera list. The
  condition of line 179 short-circuits like the guard of \<open>start_recording\<close>;
  \<^verbatim>\<open>process.returncode\<close> is the answer that \<^verbatim>\<open>poll()\<close> has just given.
\<close>

definition discard_finished :: "camera \<Rightarrow> recorder \<Rightarrow> outcome" where
  "discard_finished camera s =
     (let camera_id = cfg_id camera in
      if dict_in camera_id (processes s) then
        (case dict_get (processes s) camera_id of
           Inl e \<Rightarrow> (s, Some e)
         | Inr process \<Rightarrow>
             (let s1 = emit [Print (if poll s process = Some 0
                                    then FileCompleted (cfg_name camera) camera_id
                                    else RecordingFailed (cfg_name camera) camera_id)] s
              in case dict_del (processes s1) camera_id of
                   Inl e \<Rightarrow> (s1, Some e)
                 | Inr d \<Rightarrow> (s1\<lparr>processes := d\<rparr>, None)))
      else (s, None))"

definition check_camera :: "camera \<Rightarrow> launch \<Rightarrow> recorder \<Rightarrow> outcome" where
  "check_camera camera l s =
     (if \<not> cfg_enabled camera then (s, None)
      else
        (let camera_id = cfg_id camera in
         if (case map_of (processes s) camera_id of None \<Rightarrow> True | Some p \<Rightarrow> poll s p \<noteq> None)
         then
           and_then (discard_finished camera s)
             (\<lambda>s1. start_recording camera l
                     (emit [Print (Restarting (cfg_name camera) camera_id)] s1))
         else (s, None)))"

text \<open>
  The whole pass; \<open>env i\<close> is what \<^verbatim>\<open>Popen\<close> does if the \<open>i\<close>-th entry of the camera
  list launches.
\<close>

fun check_cameras :: "(nat \<Rightarrow> launch) \<Rightarrow> nat \<Rightarrow> camera list \<Rightarrow> recorder \<Rightarrow> outcome" where
  "check_cameras env i [] s = (s, None)"
| "check_cameras env i (camera # cs) s =
     and_then (check_camera camera (env i) s) (check_cameras env (Suc i) cs)"

definition check_and_restart_recordings :: "(nat \<Rightarrow> launch) \<Rightarrow> recorder \<Rightarrow> outcome" where
  "check_and_restart_recordings env s = check_cameras env 0 (cameras (config s)) s"

subsection \<open>\<^verbatim>\<open>run\<close>\<close>

text \<open>The startup pass of lines 202 to 204.\<close>

fun start_enabled :: "(nat \<Rightarrow> launch) \<Rightarrow> nat \<Rightarrow> camera list \<Rightarrow> recorder \<Rightarrow> outcome" where
  "start_enabled env i [] s = (s, None)"
| "start_enabled env i (camera # cs) s =
     (if cfg_enabled camera
      then and_then (start_recording camera (env i) s) (start_enabled env (Suc i) cs)
      else start_enabled env (Suc i) cs s)"

definition run_startup :: "(nat \<Rightarrow> launch) \<Rightarrow> recorder \<Rightarrow> outcome" where
  "run_startup env s = start_enabled env 0 (cameras (config s)) s"

text \<open>
  Python's \<^verbatim>\<open>int(x)\<close> on a float truncates towards zero; \<^verbatim>\<open>%\<close> with a positive
  modulus is \<open>mod\<close> on the integers.
\<close>

definition py_int :: "real \<Rightarrow> int" where
  "py_int x = (if 0 \<le> x then \<lfloor>x\<rfloor> else \<lceil>x\<rceil>)"

definition active_count :: "recorder \<Rightarrow> nat" where
  "active_count s = length (filter (\<lambda>(k, p). poll s p = None) (processes s))"

text \<open>
  One iteration of the main loop, lines 213 to 221: sleep, reconcile, and the status line
  under the test of line 219.
\<close>

definition show_status :: "recorder \<Rightarrow> outcome" where
  "show_status s =
     (if py_int (now s) mod 300 = 0
      then (emit [Print (Status (active_count s) (now s))] s, None)
      else (s, None))"

definition run_iteration :: "(nat \<Rightarrow> launch) \<Rightarrow> recorder \<Rightarrow> outcome" where
  "run_iteration env s =
     and_then (sleep (ffmpeg_reconnect_delay (config s)) s)
       (\<lambda>s0. and_then (check_and_restart_recordings env s0) show_status)"

text \<open>
  The loop \<^verbatim>\<open>while self.running\<close> has no bound of its own. \<open>run_loop n i\<close> is \<open>n\<close>
  iterations of it from iteration \<open>i\<close> on, \<open>env i\<close> being the environment of iteration \<open>i\<close>.
\<close>

fun run_loop :: "nat \<Rightarrow> nat \<Rightarrow> (nat \<Rightarrow> nat \<Rightarrow> launch) \<Rightarrow> recorder \<Rightarrow> outcome" where
  "run_loop 0 i env s = (s, None)"
| "run_loop (Suc n) i env s =
     (if running s
      then and_then (run_iteration (env i) s) (run_loop n (Suc i) env)
      else (s, None))"

text \<open>
  \<^verbatim>\<open>run\<close> up to the end of iteration \<open>n\<close> of its loop: the startup pass, the line of
  line 206, and \<open>n\<close> iterations. (Creating the recordings directory and the handlers
  around the loop are left out.)
\<close>

definition run_for :: "nat \<Rightarrow> (nat \<Rightarrow> launch) \<Rightarrow> (nat \<Rightarrow> nat \<Rightarrow> launch) \<Rightarrow> recorder \<Rightarrow> outcome" where
  "run_for n env0 env s =
     and_then (run_startup env0 s)
       (\<lambda>s1. run_loop n 0 env (emit [Print (ActiveAtStart (length (processes s1)))] s1))"

definition status_lines :: "effect list \<Rightarrow> effect list" where
  "status_lines es = filter (\<lambda>e. case e of Print (Status n t) \<Rightarrow> True | _ \<Rightarrow> False) es"

subsection \<open>Runs of the supervisor\<close>

text \<open>
  A run of the supervisor is a sequence of calls with subprocess exits in between: a
  subprocess that is running may exit at any moment, with any return code. The reconcile
  pass, the startup pass and \<open>stop_all_recordings\<close> are sequences of \<open>ReconcileCamera\<close>,
  \<open>StartSegment\<close> and \<open>StopSegment\<close> calls, between which subprocesses may exit as well.
\<close>

datatype event =
    StartSegment camera launch
  | StopSegment string reaction
  | ReconcileCamera camera launch
  | ProcessExit nat int

definition process_exit :: "nat \<Rightarrow> int \<Rightarrow> recorder \<Rightarrow> recorder" where
  "process_exit h rc s =
     (if h < next_handle s \<and> status s h = None
      then s\<lparr>status := (status s)(h := Some rc)\<rparr> else s)"

fun exec :: "event \<Rightarrow> recorder \<Rightarrow> outcome" where
  "exec (StartSegment camera l) s = start_recording camera l s"
| "exec (StopSegment camera_id r) s = stop_recording camera_id r s"
| "exec (ReconcileCamera camera l) s = check_camera camera l s"
| "exec (ProcessExit h rc) s = (process_exit h rc s, None)"

fun run_events :: "event list \<Rightarrow> recorder \<Rightarrow> outcome" where
  "run_events [] s = (s, None)"
| "run_events (e # es) s = and_then (exec e s) (run_events es)"

text \<open>
  A camera is recording when a handle is registered under its id and still runs;
  \<open>live_handles\<close> are the registered handles of a camera that are still running.
\<close>

definition is_recording :: "recorder \<Rightarrow> string \<Rightarrow> bool" where
  "is_recording s camera_id =
     (case map_of (processes s) camera_id of None \<Rightarrow> False | Some p \<Rightarrow> poll s p = None)"

definition live_handles :: "recorder \<Rightarrow> string \<Rightarrow> nat list" where
  "live_handles s camera_id =
     map snd (filter (\<lambda>(k, p). k = camera_id \<and> poll s p = None) (processes s))"

section \<open>The preview server (\<^verbatim>\<open>app.py\<close>)\<close>

subsection \<open>\<^verbatim>\<open>CameraStream\<close>\<close>

text \<open>
  A frame is a mutable array; what matters of it here is its identity (a reference into
  \<open>heap\<close>) and its content. A capture object (\<^verbatim>\<open>cv2.VideoCapture\<close>) is identified by a
  number; \<open>is_open h\<close> is what \<^verbatim>\<open>h.isOpened()\<close> answers and \<open>releases h\<close> counts the calls
  of \<^verbatim>\<open>h.release()\<close>.

  The capture thread is a program counter: it is at the loop test of line 73, or blocked
  inside \<^verbatim>\<open>cv2.VideoCapture(url)\<close> (line 58), or blocked inside \<^verbatim>\<open>read()\<close> on a
  capture object (line 80), or between the \<^verbatim>\<open>release()\<close> of line 88 and the assignment of
  line 89, or it has left the loop.
\<close>

type_synonym image = "nat list"

datatype pc = AtLoop | InConnect | InRead nat | AfterRelease | Finished

text \<open>
  The fields up to \<open>thread\<close> are those of \<^verbatim>\<open>CameraStream.__init__\<close> (\<open>thread\<close> is \<open>None\<close>
  before \<^verbatim>\<open>start()\<close>; \<^verbatim>\<open>frame_lock\<close> is modelled by the atomicity of the two blocks it
  guards); the rest is the environment. The lines that the class prints are left out.
\<close>

record CameraStream =
  camera_id :: string
  camera_name :: string
  rtsp_url :: string
  cap :: "nat option"
  last_frame :: "nat option"
  last_frame_time :: real
  cs_running :: bool
  thread :: "pc option"
  heap :: "nat \<Rightarrow> image"
  next_ref :: nat
  is_open :: "nat \<Rightarrow> bool"
  releases :: "nat \<Rightarrow> nat"
  next_cap :: nat

definition CameraStream_init :: "camera \<Rightarrow> CameraStream" where
  "CameraStream_init camera_config =
     \<lparr>camera_id = cfg_id camera_config, camera_name = cfg_name camera_config,
      rtsp_url = cfg_rtsp_url camera_config, cap = None, last_frame = None,
      last_frame_time = 0, cs_running = False, thread = None,
      heap = (\<lambda>_. []), next_ref = 0, is_open = (\<lambda>_. False), releases = (\<lambda>_. 0),
      next_cap = 0\<rparr>"

definition release :: "nat \<Rightarrow> CameraStream \<Rightarrow> CameraStream" where
  "release h s = s\<lparr>is_open := (is_open s)(h := False), releases := (releases s)(h := Suc (releases s h))\<rparr>"

text \<open>
  Lines 83 to 85, under the lock: \<^verbatim>\<open>read()\<close> has returned a new array \<open>img\<close>, at time \<open>t\<close>.
\<close>

definition write_frame :: "image \<Rightarrow> real \<Rightarrow> CameraStream \<Rightarrow> CameraStream" where
  "write_frame img t s =
     s\<lparr>heap := (heap s)(next_ref s := img), next_ref := Suc (next_ref s),
       last_frame := Some (next_ref s), last_frame_time := t\<rparr>"

text \<open>
  Times are Python floats, that is binary64 numbers, modelled by the real numbers they
  denote. The difference of two of them is the exact difference rounded to the nearest
  number with a significand of 53 bits, ties going to the even significand. For
  \<open>x \<noteq> 0\<close>, \<open>exponent64 x\<close> is the integer \<open>e\<close> with \<open>2 powi e \<le> \<bar>x\<bar> < 2 powi (e + 1)\<close>,
  and the numbers of that binade are the multiples of \<open>2 powi (e - 52)\<close>. The range of
  the exponent (overflow, subnormal numbers) is not modelled: differences of clock values
  are far inside it.
\<close>

definition round_half_even :: "real \<Rightarrow> int" where
  "round_half_even y =
     (let n = \<lfloor>y\<rfloor> in
      if y - of_int n < 1 / 2 then n
      else if 1 / 2 < y - of_int n then n + 1
      else if even n then n else n + 1)"

definition exponent64 :: "real \<Rightarrow> int" where
  "exponent64 x =
     (if 1 \<le> \<bar>x\<bar> then bitlen \<lfloor>\<bar>x\<bar>\<rfloor> - 1 else - bitlen (\<lceil>1 / \<bar>x\<bar>\<rceil> - 1))"

definition round64 :: "real \<Rightarrow> real" where
  "round64 x =
     (if x = 0 then 0
      else of_int (round_half_even (x / 2 powi (exponent64 x - 52))) * 2 powi (exponent64 x - 52))"

definition fsub :: "real \<Rightarrow> real \<Rightarrow> real" where
  "fsub a b = round64 (a - b)"

text \<open>
  \<^verbatim>\<open>get_frame\<close> at time \<open>t\<close>, lines 124 to 127. \<^verbatim>\<open>copy()\<close> allocates a new array with the
  content of the cached one.
\<close>

definition get_frame :: "real \<Rightarrow> CameraStream \<Rightarrow> nat option \<times> CameraStream" where
  "get_frame t s =
     (case last_frame s of
        None \<Rightarrow> (None, s)
      | Some r \<Rightarrow>
          if fsub t (last_frame_time s) < 10
          then (Some (next_ref s),
                s\<lparr>heap := (heap s)(next_ref s := heap s r), next_ref := Suc (next_ref s)\<rparr>)
          else (None, s))"

text \<open>
  What the environment does when the capture thread is blocked: \<^verbatim>\<open>cv2.VideoCapture(url)\<close>
  returns an object that is open or not, \<^verbatim>\<open>read()\<close> returns a frame at a time, or returns
  no frame, or raises. \<open>Go\<close> lets the thread run where it is not blocked.
\<close>

datatype io = Go | Opened bool | Frame image real | NoFrame | ReadError

text \<open>
  One step of \<^verbatim>\<open>_capture_frames\<close> (lines 73 to 97, with \<^verbatim>\<open>_connect_camera\<close> inlined),
  from one blocking point to the next. A step that does not fit the program counter
  leaves the state as it is (the thread stays blocked).
  \<^item> At the loop test: leave the loop if \<^verbatim>\<open>running\<close> is false; else, with no open capture
    object, release the old one if there is one (line 52) and enter
    \<^verbatim>\<open>cv2.VideoCapture\<close>; else enter \<^verbatim>\<open>read()\<close> on \<^verbatim>\<open>self.cap\<close>.
  \<^item> \<^verbatim>\<open>cv2.VideoCapture\<close> returns: the object is stored in \<^verbatim>\<open>self.cap\<close>; if it is not
    open the thread sleeps and goes back to the loop test, else it enters \<^verbatim>\<open>read()\<close>.
  \<^item> \<^verbatim>\<open>read()\<close> returns a frame: it is cached. It returns no frame:
    \<^verbatim>\<open>self.cap.release()\<close> of line 88, which raises \<^verbatim>\<open>AttributeError\<close> if \<^verbatim>\<open>self.cap\<close> is
    \<^verbatim>\<open>None\<close> by now (the handler of line 92 then finds nothing to release). It raises:
    the handler releases \<^verbatim>\<open>self.cap\<close> if there is one and clears it.
  \<^item> After line 88: line 89 clears \<^verbatim>\<open>self.cap\<close>.
\<close>

definition capture_step :: "io \<Rightarrow> CameraStream \<Rightarrow> CameraStream" where
  "capture_step a s =
     (case (thread s, a) of
        (Some AtLoop, Go) \<Rightarrow>
          if \<not> cs_running s then s\<lparr>thread := Some Finished\<rparr>
          else
            (case cap s of
               None \<Rightarrow> s\<lparr>thread := Some InConnect\<rparr>
             | Some h \<Rightarrow>
                 if \<not> is_open s h then (release h s)\<lparr>thread := Some InConnect\<rparr>
                 else s\<lparr>thread := Some (InRead h)\<rparr>)
      | (Some InConnect, Opened b) \<Rightarrow>
          (let h = next_cap s;
               s1 = s\<lparr>cap := Some h, is_open := (is_open s)(h := b), next_cap := Suc h\<rparr>
           in if b then s1\<lparr>thread := Some (InRead h)\<rparr> else s1\<lparr>thread := Some AtLoop\<rparr>)
      | (Some (InRead h), Frame img t) \<Rightarrow> (write_frame img t s)\<lparr>thread := Some AtLoop\<rparr>
      | (Some (InRead h), NoFrame) \<Rightarrow>
          (case cap s of
             None \<Rightarrow> s\<lparr>thread := Some AtLoop\<rparr>
           | Some h' \<Rightarrow> (release h' s)\<lparr>thread := Some AfterRelease\<rparr>)
      | (Some (InRead h), ReadError) \<Rightarrow>
          (case cap s of
             None \<Rightarrow> s\<lparr>thread := Some AtLoop\<rparr>
           | Some h' \<Rightarrow> (release h' s)\<lparr>cap := None, thread := Some AtLoop\<rparr>)
      | (Some AfterRelease, Go) \<Rightarrow> s\<lparr>cap := None, thread := Some AtLoop\<rparr>
      | _ \<Rightarrow> s)"

definition capture_steps :: "io list \<Rightarrow> CameraStream \<Rightarrow> CameraStream" where
  "capture_steps as s = foldl (\<lambda>s a. capture_step a s) s as"

text \<open>
  \<^verbatim>\<open>start()\<close>, lines 101 to 105. The worker has one program counter: this is \<open>start()\<close>
  on a worker without a live capture thread, as \<^verbatim>\<open>_initialize_cameras\<close> calls it. (A
  \<open>start()\<close> after a \<open>stop()\<close> whose join timed out would leave the earlier thread
  running beside the new one.)
\<close>

definition start :: "CameraStream \<Rightarrow> CameraStream" where
  "start s = (if \<not> cs_running s then s\<lparr>cs_running := True, thread := Some AtLoop\<rparr> else s)"

text \<open>
  \<^verbatim>\<open>stop()\<close>, lines 109 to 114. \<^verbatim>\<open>join(timeout=2)\<close> returns when the capture thread has
  left its loop or when the timeout has passed; \<open>during_join\<close> is what the capture thread
  gets to do in the meantime.
\<close>

definition stop :: "io list \<Rightarrow> CameraStream \<Rightarrow> CameraStream" where
  "stop during_join s =
     (let s1 = s\<lparr>cs_running := False\<rparr>;
          s2 = (if thread s1 \<noteq> None then capture_steps during_join s1 else s1)
      in case cap s2 of
           None \<Rightarrow> s2
         | Some h \<Rightarrow> (release h s2)\<lparr>cap := None\<rparr>)"

text \<open>A run of frame writes, the oldest first.\<close>

definition frame_writes :: "(image \<times> real) list \<Rightarrow> CameraStream \<Rightarrow> CameraStream" where
  "frame_writes ws s = foldl (\<lambda>s (img, t). write_frame img t s) s ws"






subsection \<open>\<^verbatim>\<open>RTSPWebServer._initialize_cameras\<close>\<close>

text \<open>
  \<open>ws_config\<close> is \<open>None\<close> when \<^verbatim>\<open>_load_config\<close> failed; \<open>ws_cameras\<close> is the dictionary
  \<^verbatim>\<open>self.cameras\<close> of workers by camera id.
\<close>

record RTSPWebServer =
  ws_config :: "app_config option"
  ws_cameras :: "(string \<times> CameraStream) list"

definition add_camera :: "RTSPWebServer \<Rightarrow> camera \<Rightarrow> RTSPWebServer" where
  "add_camera w camera_config =
     (if cfg_enabled camera_config
      then w\<lparr>ws_cameras := dict_set (cfg_id camera_config)
                              (start (CameraStream_init camera_config)) (ws_cameras w)\<rparr>
      else w)"

definition initialize_cameras :: "RTSPWebServer \<Rightarrow> RTSPWebServer" where
  "initialize_cameras w =
     (case ws_config w of
        None \<Rightarrow> w
      | Some cfg \<Rightarrow> foldl add_camera w (cameras cfg))"

definition RTSPWebServer_init :: "app_config option \<Rightarrow> RTSPWebServer" where
  "RTSPWebServer_init cfg = initialize_cameras \<lparr>ws_config = cfg, ws_cameras = []\<rparr>"

section \<open>Example inputs\<close>

definition example_cam1 :: camera where
  "example_cam1 = \<lparr>cfg_id = ''cam1'', cfg_name = ''Entrance'',
                    cfg_rtsp_url = ''rtsp://10.0.0.5/stream1'', cfg_enabled = True\<rparr>"

definition example_cam2 :: camera where
  "example_cam2 = \<lparr>cfg_id = ''cam2'', cfg_name = ''Yard'',
                    cfg_rtsp_url = ''rtsp://10.0.0.6/stream1'', cfg_enabled = False\<rparr>"

definition example_config :: app_config where
  "example_config = \<lparr>cameras = [example_cam1, example_cam2], recordings_path = ''recordings'',
                      segment_duration = 300, ffmpeg_reconnect_delay = 5\<rparr>"

text \<open>A recorder with one running subprocess, registered for \<open>cam1\<close>.\<close>

definition example_recording :: recorder where
  "example_recording =
     fst (start_recording example_cam1 (Spawned None [] []) (RTSPRecorder_init example_config 0))"

section \<open>Basic facts\<close>

lemma dict_in_delete: "\<not> dict_in k (AList.delete k d)"
  by (simp add: dict_in_def delete_conv')

lemma and_then_None: "and_then (s, None) f = f s"
  by (simp add: and_then_def)

subsection \<open>\<open>stop_recording\<close>\<close>

lemma stop_recording_absent: "\<not> dict_in cid (processes s) \<Longrightarrow> stop_recording cid r s = (s, None)"
  by (simp add: stop_recording_def)

lemma terminate_and_wait_fields:
  "processes (terminate_and_wait p r s) = processes s"
  "config (terminate_and_wait p r s) = config s"
  "running (terminate_and_wait p r s) = running s"
  "next_handle (terminate_and_wait p r s) = next_handle s"
  by (simp_all add: terminate_and_wait_def emit_def Let_def split: reaction.splits)

lemma terminate_and_wait_trace:
  "trace (terminate_and_wait p r s) = trace s @
     (case r of ExitsAfter d rc \<Rightarrow> if d \<le> 10 then [Terminate p, Wait p d] else [Terminate p, Wait p 10, Kill p]
      | Hangs \<Rightarrow> [Terminate p, Wait p 10, Kill p])"
  by (simp add: terminate_and_wait_def emit_def Let_def split: reaction.splits)

lemma terminate_and_wait_now: "now (terminate_and_wait p r s) - now s \<le> 10"
  by (auto simp add: terminate_and_wait_def emit_def Let_def split: reaction.splits)

lemma stop_recording_present:
  "map_of (processes s) cid = Some p \<Longrightarrow>
   stop_recording cid r s =
     ((if poll s p = None then terminate_and_wait p r (emit [Print (Stopping cid p)] s) else s)
        \<lparr>processes := AList.delete cid (processes s)\<rparr>, None)"
  by (simp add: stop_recording_def dict_get_def dict_del_def dict_in_def Let_def
      terminate_and_wait_fields emit_def)

lemma stop_recording_processes:
  "processes (fst (stop_recording cid r s)) = AList.delete cid (processes s)"
proof (cases "map_of (processes s) cid")
  case None
  then have "cid \<notin> fst ` set (processes s)" by (simp add: map_of_eq_None_iff)
  with None show ?thesis by (simp add: stop_recording_absent dict_in_def)
next
  case (Some p)
  then show ?thesis by (simp add: stop_recording_present)
qed

lemma stop_recording_returns: "snd (stop_recording cid r s) = None"
  by (cases "map_of (processes s) cid") (simp_all add: stop_recording_absent dict_in_def stop_recording_present)

lemma stop_keys_returns: "snd (stop_keys env ks s) = None"
proof (induction ks arbitrary: s)
  case Nil
  show ?case by simp
next
  case (Cons k ks)
  obtain s' where "stop_recording k (env k) s = (s', None)"
    using stop_recording_returns [of k "env k" s] by (cases "stop_recording k (env k) s") auto
  with Cons show ?case by (simp add: and_then_None)
qed

lemma stop_keys_processes:
  "fst ` set (processes (fst (stop_keys env ks s))) = fst ` set (processes s) - set ks"
proof (induction ks arbitrary: s)
  case Nil
  show ?case by simp
next
  case (Cons k ks)
  obtain s' where s': "stop_recording k (env k) s = (s', None)"
    using stop_recording_returns [of k "env k" s] by (cases "stop_recording k (env k) s") auto
  have "processes s' = AList.delete k (processes s)"
    using stop_recording_processes [of k "env k" s] s' by simp
  then have "fst ` set (processes s') = fst ` set (processes s) - {k}"
    by (auto simp: AList.delete_eq)
  with Cons [of s'] s' show ?case by (auto simp add: and_then_None)
qed

lemma stop_all_recordings_empties: "processes (fst (stop_all_recordings env s)) = []"
  using stop_keys_processes [of env "map fst (processes s)" s]
  by (simp add: stop_all_recordings_def)

subsection \<open>\<open>start_recording\<close>\<close>

lemma example_recording_eq:
  "example_recording =
     \<lparr>config = example_config, processes = [(''cam1'', 0)], running = True,
      status = (\<lambda>_. None), next_handle = 1, now = 2,
      trace = [Print (StartingRecording ''Entrance'' ''cam1''), Print (Url ''rtsp://10.0.0.5/stream1''),
               Popen ''cam1'', Sleep 2, Print (RecordingStarted 0)]\<rparr>"
  by (simp add: example_recording_def start_recording_def start_recording_try_def RTSPRecorder_init_def
      example_cam1_def emit_def sleep_def slept_def and_then_def poll_def dict_set_def Let_def)

lemma start_recording_live:
  "is_recording s (cfg_id camera) \<Longrightarrow>
   start_recording camera l s = (s\<lparr>trace := trace s @ [Print (AlreadyRecording (cfg_id camera))]\<rparr>, None)"
  by (simp add: start_recording_def is_recording_def emit_def)

lemma start_recording_exited:
  "\<not> is_recording s (cfg_id camera) \<Longrightarrow>
   start_recording camera (Spawned (Some rc) out err) s =
     (s\<lparr>next_handle := Suc (next_handle s), status := (status s)(next_handle s := Some rc),
        now := now s + 2,
        trace := trace s @
          [Print (StartingRecording (cfg_name camera) (cfg_id camera)), Print (Url (cfg_rtsp_url camera)),
           Popen (cfg_id camera), Sleep 2, Communicate (next_handle s), Print FfmpegFailedImmediately,
           Print (Stdout out), Print (Stderr err)]\<rparr>, None)"
  by (simp add: start_recording_def is_recording_def start_recording_try_def emit_def sleep_def
      slept_def and_then_def
      poll_def Let_def)

lemma start_recording_started:
  "\<not> is_recording s (cfg_id camera) \<Longrightarrow>
   start_recording camera (Spawned None out err) s =
     (s\<lparr>next_handle := Suc (next_handle s), status := (status s)(next_handle s := None),
        now := now s + 2,
        processes := AList.update (cfg_id camera) (next_handle s) (processes s),
        trace := trace s @
          [Print (StartingRecording (cfg_name camera) (cfg_id camera)), Print (Url (cfg_rtsp_url camera)),
           Popen (cfg_id camera), Sleep 2, Print (RecordingStarted (next_handle s))]\<rparr>, None)"
  by (simp add: start_recording_def is_recording_def start_recording_try_def emit_def sleep_def
      slept_def and_then_def
      poll_def dict_set_def Let_def)

lemma start_recording_raises:
  "\<not> is_recording s (cfg_id camera) \<Longrightarrow>
   start_recording camera (Raises e) s =
     (s\<lparr>trace := trace s @
          [Print (StartingRecording (cfg_name camera) (cfg_id camera)), Print (Url (cfg_rtsp_url camera)),
           Popen (cfg_id camera)] @
          (if e = FileNotFoundError then [Print FfmpegNotFound, Print InstallHint]
           else if is_Exception e then [Print (StartError (cfg_id camera) (exn_text e))] else [])\<rparr>,
      if is_Exception e then None else Some e)"
  by (cases e) (simp_all add: start_recording_def is_recording_def start_recording_try_def emit_def Let_def)


lemma trace_emitted: "prefix (trace s) (trace s') \<Longrightarrow> trace s' = trace s @ emitted s s'"
  by (auto simp: emitted_def prefix_def)

lemma emitted_trans:
  "prefix (trace s) (trace s') \<Longrightarrow> prefix (trace s') (trace s'') \<Longrightarrow>
   emitted s s'' = emitted s s' @ emitted s' s''"
  by (auto simp: emitted_def prefix_def)

lemma is_recording_absent: "\<not> dict_in cid (processes s) \<Longrightarrow> \<not> is_recording s cid"
  by (simp add: is_recording_def dict_in_def)

text \<open>The four ways a call of start_recording can go.\<close>

lemma start_recording_cases:
  obtains
    (live) "is_recording s (cfg_id camera)"
      "start_recording camera l s =
         (s\<lparr>trace := trace s @ [Print (AlreadyRecording (cfg_id camera))]\<rparr>, None)"
  | (raises) e where "\<not> is_recording s (cfg_id camera)" "l = Raises e"
      "start_recording camera l s =
     (s\<lparr>trace := trace s @
          [Print (StartingRecording (cfg_name camera) (cfg_id camera)), Print (Url (cfg_rtsp_url camera)),
           Popen (cfg_id camera)] @
          (if e = FileNotFoundError then [Print FfmpegNotFound, Print InstallHint]
           else if is_Exception e then [Print (StartError (cfg_id camera) (exn_text e))] else [])\<rparr>,
      if is_Exception e then None else Some e)"
  | (exited) rc out err where "\<not> is_recording s (cfg_id camera)" "l = Spawned (Some rc) out err"
      "start_recording camera l s =
     (s\<lparr>next_handle := Suc (next_handle s), status := (status s)(next_handle s := Some rc),
        now := now s + 2,
        trace := trace s @
          [Print (StartingRecording (cfg_name camera) (cfg_id camera)), Print (Url (cfg_rtsp_url camera)),
           Popen (cfg_id camera), Sleep 2, Communicate (next_handle s), Print FfmpegFailedImmediately,
           Print (Stdout out), Print (Stderr err)]\<rparr>, None)"
  | (started) out err where "\<not> is_recording s (cfg_id camera)" "l = Spawned None out err"
      "start_recording camera l s =
     (s\<lparr>next_handle := Suc (next_handle s), status := (status s)(next_handle s := None),
        now := now s + 2,
        processes := AList.update (cfg_id camera) (next_handle s) (processes s),
        trace := trace s @
          [Print (StartingRecording (cfg_name camera) (cfg_id camera)), Print (Url (cfg_rtsp_url camera)),
           Popen (cfg_id camera), Sleep 2, Print (RecordingStarted (next_handle s))]\<rparr>, None)"
proof (cases "is_recording s (cfg_id camera)")
  case True
  then show ?thesis using live start_recording_live by blast
next
  case False
  show ?thesis
  proof (cases l)
    case (Raises e)
    with False show ?thesis using raises start_recording_raises by blast
  next
    case (Spawned st out err)
    show ?thesis
    proof (cases st)
      case None
      with False Spawned show ?thesis using started start_recording_started by blast
    next
      case (Some rc)
      with False Spawned show ?thesis using exited start_recording_exited by blast
    qed
  qed
qed

lemma start_recording_frame:
  "config (fst (start_recording camera l s)) = config s"
  "running (fst (start_recording camera l s)) = running s"
  "prefix (trace s) (trace (fst (start_recording camera l s)))"
  "next_handle s \<le> next_handle (fst (start_recording camera l s))"
  by (cases rule: start_recording_cases [of s camera l]; simp)+

lemma start_recording_Popen:
  "Popen k \<in> set (emitted s (fst (start_recording camera l s))) \<longleftrightarrow>
     k = cfg_id camera \<and> \<not> is_recording s (cfg_id camera)"
  by (cases rule: start_recording_cases [of s camera l]) (auto simp: emitted_def)

lemma start_recording_returns:
  "snd (start_recording camera l s) = None \<longleftrightarrow>
     is_recording s (cfg_id camera) \<or> (\<forall>e. l = Raises e \<longrightarrow> is_Exception e)"
  by (cases rule: start_recording_cases [of s camera l]) auto



lemma start_recording_distinct:
  "distinct (map fst (processes s)) \<Longrightarrow>
   distinct (map fst (processes (fst (start_recording camera l s))))"
  by (cases rule: start_recording_cases [of s camera l]) (auto simp: distinct_update)

subsection \<open>\<open>check_camera\<close>\<close>

lemma discard_finished_eq:
  "discard_finished camera s =
     (case map_of (processes s) (cfg_id camera) of
        None \<Rightarrow> (s, None)
      | Some p \<Rightarrow>
          (s\<lparr>trace := trace s @ [Print (if poll s p = Some 0
                                          then FileCompleted (cfg_name camera) (cfg_id camera)
                                          else RecordingFailed (cfg_name camera) (cfg_id camera))],
             processes := AList.delete (cfg_id camera) (processes s)\<rparr>, None))"
  by (simp add: discard_finished_def dict_in_def dict_get_def dict_del_def emit_def Let_def
      split: option.splits)

text \<open>The state in which check_camera calls start_recording.\<close>

lemma check_camera_skip:
  "\<not> cfg_enabled camera \<or> is_recording s (cfg_id camera) \<Longrightarrow> check_camera camera l s = (s, None)"
  by (auto simp: check_camera_def is_recording_def Let_def split: option.splits)

lemma check_camera_restart:
  assumes "cfg_enabled camera" "\<not> is_recording s (cfg_id camera)"
  shows "\<exists>es. check_camera camera l s =
           start_recording camera l
             (s\<lparr>processes := AList.delete (cfg_id camera) (processes s), trace := trace s @ es\<rparr>) \<and>
           Popen (cfg_id camera) \<notin> set es \<and> (\<forall>k. Popen k \<notin> set es)"
proof (cases "map_of (processes s) (cfg_id camera)")
  case None
  then have "cfg_id camera \<notin> fst ` set (processes s)" by (simp add: map_of_eq_None_iff)
  then have "AList.delete (cfg_id camera) (processes s) = processes s" by simp
  with None assms show ?thesis
    by (intro exI [of _ "[Print (Restarting (cfg_name camera) (cfg_id camera))]"])
      (simp add: check_camera_def discard_finished_eq and_then_def emit_def Let_def)
next
  case (Some p)
  with assms show ?thesis
    by (intro exI [of _ "[Print (if poll s p = Some 0
                                          then FileCompleted (cfg_name camera) (cfg_id camera)
                                          else RecordingFailed (cfg_name camera) (cfg_id camera)),
                          Print (Restarting (cfg_name camera) (cfg_id camera))]"])
      (simp add: check_camera_def discard_finished_eq and_then_def emit_def Let_def is_recording_def)
qed

lemma not_recording_deleted:
  "\<not> is_recording (s\<lparr>processes := AList.delete cid (processes s), trace := t\<rparr>) cid"
  by (simp add: is_recording_def delete_conv')

lemma check_camera_frame:
  "config (fst (check_camera camera l s)) = config s"
  "running (fst (check_camera camera l s)) = running s"
  "prefix (trace s) (trace (fst (check_camera camera l s)))"
  "next_handle s \<le> next_handle (fst (check_camera camera l s))"
proof -
  consider "\<not> cfg_enabled camera \<or> is_recording s (cfg_id camera)"
    | "cfg_enabled camera" "\<not> is_recording s (cfg_id camera)" by blast
  then have "config (fst (check_camera camera l s)) = config s \<and>
    running (fst (check_camera camera l s)) = running s \<and>
    prefix (trace s) (trace (fst (check_camera camera l s))) \<and>
    next_handle s \<le> next_handle (fst (check_camera camera l s))"
  proof cases
    case 1
    then show ?thesis by (simp add: check_camera_skip)
  next
    case 2
    then obtain es where es: "check_camera camera l s =
           start_recording camera l
             (s\<lparr>processes := AList.delete (cfg_id camera) (processes s), trace := trace s @ es\<rparr>)"
      using check_camera_restart by blast
    let ?s1 = "s\<lparr>processes := AList.delete (cfg_id camera) (processes s), trace := trace s @ es\<rparr>"
    have "prefix (trace s) (trace ?s1)" by simp
    moreover have "prefix (trace ?s1) (trace (fst (start_recording camera l ?s1)))"
      by (rule start_recording_frame)
    ultimately have "prefix (trace s) (trace (fst (start_recording camera l ?s1)))"
      by (rule prefix_order.trans)
    moreover have "next_handle s \<le> next_handle (fst (start_recording camera l ?s1))"
      using start_recording_frame(4) [of ?s1 camera l] by simp
    ultimately show ?thesis using es by (simp add: start_recording_frame)
  qed
  then show "config (fst (check_camera camera l s)) = config s"
    "running (fst (check_camera camera l s)) = running s"
    "prefix (trace s) (trace (fst (check_camera camera l s)))"
    "next_handle s \<le> next_handle (fst (check_camera camera l s))" by simp_all
qed

lemma check_camera_Popen:
  "Popen k \<in> set (emitted s (fst (check_camera camera l s))) \<longleftrightarrow>
     k = cfg_id camera \<and> cfg_enabled camera \<and> \<not> is_recording s (cfg_id camera)"
proof (cases "\<not> cfg_enabled camera \<or> is_recording s (cfg_id camera)")
  case True
  then show ?thesis by (auto simp: check_camera_skip emitted_def)
next
  case False
  then obtain es where es: "check_camera camera l s =
           start_recording camera l
             (s\<lparr>processes := AList.delete (cfg_id camera) (processes s), trace := trace s @ es\<rparr>)"
      and no: "\<forall>k. Popen k \<notin> set es"
    using check_camera_restart [of camera s l] by blast
  let ?s1 = "s\<lparr>processes := AList.delete (cfg_id camera) (processes s), trace := trace s @ es\<rparr>"
  let ?s2 = "fst (start_recording camera l ?s1)"
  have "prefix (trace s) (trace ?s1)" by simp
  moreover have "prefix (trace ?s1) (trace ?s2)" by (rule start_recording_frame)
  ultimately have "emitted s ?s2 = emitted s ?s1 @ emitted ?s1 ?s2"
    by (rule emitted_trans)
  moreover have "emitted s ?s1 = es" by (simp add: emitted_def)
  ultimately have "Popen k \<in> set (emitted s ?s2) \<longleftrightarrow> Popen k \<in> set (emitted ?s1 ?s2)"
    using no by simp
  also have "\<dots> \<longleftrightarrow> k = cfg_id camera \<and> \<not> is_recording ?s1 (cfg_id camera)"
    by (rule start_recording_Popen)
  also have "\<dots> \<longleftrightarrow> k = cfg_id camera" by (simp add: not_recording_deleted)
  finally show ?thesis using False es by simp
qed



lemma check_camera_distinct:
  "distinct (map fst (processes s)) \<Longrightarrow>
   distinct (map fst (processes (fst (check_camera camera l s))))"
proof (cases "\<not> cfg_enabled camera \<or> is_recording s (cfg_id camera)")
  case True
  assume "distinct (map fst (processes s))"
  with True show ?thesis by (auto simp: check_camera_skip)
next
  case False
  assume d: "distinct (map fst (processes s))"
  from False obtain es where es: "check_camera camera l s =
           start_recording camera l
             (s\<lparr>processes := AList.delete (cfg_id camera) (processes s), trace := trace s @ es\<rparr>)"
    using check_camera_restart [of camera s l] by blast
  show ?thesis using d by (simp add: es start_recording_distinct distinct_delete)
qed


subsection \<open>Passes over the camera list and the main loop\<close>

lemma and_then_fst_snd:
  "and_then r f = (if snd r = None then f (fst r) else r)"
  by (cases r) (auto simp: and_then_def split: option.splits)

lemma and_then_ok: "snd r = None \<Longrightarrow> and_then r f = f (fst r)"
  by (simp add: and_then_fst_snd)

lemma and_then_raised: "snd r \<noteq> None \<Longrightarrow> and_then r f = r"
  by (auto simp add: and_then_fst_snd)

lemma check_cameras_frame:
  "config (fst (check_cameras env i cs s)) = config s \<and>
   running (fst (check_cameras env i cs s)) = running s \<and>
   prefix (trace s) (trace (fst (check_cameras env i cs s))) \<and>
   next_handle s \<le> next_handle (fst (check_cameras env i cs s))"
proof (induction cs arbitrary: i s)
  case Nil
  show ?case by simp
next
  case (Cons c cs)
  let ?s1 = "fst (check_camera c (env i) s)"
  show ?case
  proof (cases "snd (check_camera c (env i) s) = None")
    case True
    have "prefix (trace s) (trace ?s1)" by (rule check_camera_frame)
    moreover have "prefix (trace ?s1) (trace (fst (check_cameras env (Suc i) cs ?s1)))"
      using Cons.IH [of "Suc i" ?s1] by simp
    ultimately have "prefix (trace s) (trace (fst (check_cameras env (Suc i) cs ?s1)))"
      by (rule prefix_order.trans)
    moreover have "next_handle s \<le> next_handle (fst (check_cameras env (Suc i) cs ?s1))"
      using Cons.IH [of "Suc i" ?s1] check_camera_frame(4) [of s c "env i"] by linarith
    ultimately show ?thesis
      using True Cons.IH [of "Suc i" ?s1] by (simp add: and_then_ok check_camera_frame)
  next
    case False
    then show ?thesis by (simp add: and_then_raised check_camera_frame)
  qed
qed

lemma check_cameras_Popen:
  "Popen k \<in> set (emitted s (fst (check_cameras env i cs s))) \<Longrightarrow>
   \<exists>c \<in> set cs. cfg_id c = k \<and> cfg_enabled c"
proof (induction cs arbitrary: i s)
  case Nil
  then show ?case by (simp add: emitted_def)
next
  case (Cons c cs)
  let ?s1 = "fst (check_camera c (env i) s)"
  show ?case
  proof (cases "snd (check_camera c (env i) s) = None")
    case True
    let ?s2 = "fst (check_cameras env (Suc i) cs ?s1)"
    have "prefix (trace s) (trace ?s1)" by (rule check_camera_frame)
    moreover have "prefix (trace ?s1) (trace ?s2)" using check_cameras_frame by blast
    ultimately have "emitted s ?s2 = emitted s ?s1 @ emitted ?s1 ?s2" by (rule emitted_trans)
    with Cons.prems True have "Popen k \<in> set (emitted s ?s1) \<or> Popen k \<in> set (emitted ?s1 ?s2)"
      by (simp add: and_then_fst_snd)
    then show ?thesis
    proof
      assume "Popen k \<in> set (emitted s ?s1)"
      then show ?thesis by (simp add: check_camera_Popen)
    next
      assume "Popen k \<in> set (emitted ?s1 ?s2)"
      then show ?thesis using Cons.IH by auto
    qed
  next
    case False
    with Cons.prems have "Popen k \<in> set (emitted s ?s1)" by (simp add: and_then_fst_snd)
    then show ?thesis by (simp add: check_camera_Popen)
  qed
qed


lemma start_enabled_frame:
  "config (fst (start_enabled env i cs s)) = config s \<and>
   running (fst (start_enabled env i cs s)) = running s \<and>
   prefix (trace s) (trace (fst (start_enabled env i cs s)))"
proof (induction cs arbitrary: i s)
  case Nil
  show ?case by simp
next
  case (Cons c cs)
  let ?s1 = "fst (start_recording c (env i) s)"
  show ?case
  proof (cases "cfg_enabled c \<and> snd (start_recording c (env i) s) = None")
    case True
    have "prefix (trace s) (trace ?s1)" by (rule start_recording_frame)
    moreover have "prefix (trace ?s1) (trace (fst (start_enabled env (Suc i) cs ?s1)))"
      using Cons.IH [of "Suc i" ?s1] by simp
    ultimately have "prefix (trace s) (trace (fst (start_enabled env (Suc i) cs ?s1)))"
      by (rule prefix_order.trans)
    then show ?thesis
      using True Cons.IH [of "Suc i" ?s1] by (simp add: and_then_fst_snd start_recording_frame)
  next
    case False
    then show ?thesis using Cons.IH [of "Suc i" s]
      by (auto simp add: and_then_fst_snd start_recording_frame)
  qed
qed

lemma start_enabled_Popen:
  "Popen k \<in> set (emitted s (fst (start_enabled env i cs s))) \<Longrightarrow>
   \<exists>c \<in> set cs. cfg_id c = k \<and> cfg_enabled c"
proof (induction cs arbitrary: i s)
  case Nil
  then show ?case by (simp add: emitted_def)
next
  case (Cons c cs)
  let ?s1 = "fst (start_recording c (env i) s)"
  show ?case
  proof (cases "cfg_enabled c")
    case False
    with Cons.prems have "Popen k \<in> set (emitted s (fst (start_enabled env (Suc i) cs s)))" by simp
    then show ?thesis using Cons.IH by auto
  next
    case en: True
    show ?thesis
    proof (cases "snd (start_recording c (env i) s) = None")
      case True
      let ?s2 = "fst (start_enabled env (Suc i) cs ?s1)"
      have "prefix (trace s) (trace ?s1)" by (rule start_recording_frame)
      moreover have "prefix (trace ?s1) (trace ?s2)" using start_enabled_frame by blast
      ultimately have "emitted s ?s2 = emitted s ?s1 @ emitted ?s1 ?s2" by (rule emitted_trans)
      with Cons.prems True en
      have "Popen k \<in> set (emitted s ?s1) \<or> Popen k \<in> set (emitted ?s1 ?s2)"
        by (simp add: and_then_fst_snd)
      then show ?thesis
      proof
        assume "Popen k \<in> set (emitted s ?s1)"
        then show ?thesis using en by (simp add: start_recording_Popen)
      next
        assume "Popen k \<in> set (emitted ?s1 ?s2)"
        then show ?thesis using Cons.IH by auto
      qed
    next
      case False
      with Cons.prems en have "Popen k \<in> set (emitted s ?s1)" by (simp add: and_then_fst_snd)
      then show ?thesis using en by (simp add: start_recording_Popen)
    qed
  qed
qed

lemma show_status_frame:
  "config (fst (show_status s)) = config s" "running (fst (show_status s)) = running s"
  "prefix (trace s) (trace (fst (show_status s)))" "snd (show_status s) = None"
  "Popen k \<notin> set (emitted s (fst (show_status s)))"
  by (simp_all add: show_status_def emit_def emitted_def)

lemma sleep_frame:
  "config (slept d s) = config s" "running (slept d s) = running s"
  "trace (slept d s) = trace s @ [Sleep d]" "processes (slept d s) = processes s"
  "now (slept d s) = now s + d"
  by (simp_all add: slept_def emit_def)

lemma run_iteration_cases:
  "run_iteration env s =
     (if ffmpeg_reconnect_delay (config s) < 0
      then (s, Some (ValueError ''sleep length must be non-negative''))
      else and_then
             (check_and_restart_recordings env (slept (ffmpeg_reconnect_delay (config s)) s))
             show_status)"
  by (simp add: run_iteration_def sleep_def and_then_def)

lemma run_iteration_frame:
  "config (fst (run_iteration env s)) = config s \<and>
   running (fst (run_iteration env s)) = running s \<and>
   prefix (trace s) (trace (fst (run_iteration env s)))"
proof (cases "ffmpeg_reconnect_delay (config s) < 0")
  case True
  then show ?thesis by (simp add: run_iteration_cases)
next
  case False
  let ?s0 = "slept (ffmpeg_reconnect_delay (config s)) s"
  let ?s1 = "fst (check_and_restart_recordings env ?s0)"
  have a: "prefix (trace s) (trace ?s0)" by (simp add: sleep_frame)
  have b: "prefix (trace ?s0) (trace ?s1)"
    using check_cameras_frame by (simp add: check_and_restart_recordings_def)
  have c: "prefix (trace ?s1) (trace (fst (show_status ?s1)))" by (rule show_status_frame)
  have d: "config ?s1 = config s" "running ?s1 = running s"
    using check_cameras_frame [of env 0 "cameras (config ?s0)" ?s0]
    by (simp_all add: check_and_restart_recordings_def sleep_frame)
  from a b have ab: "prefix (trace s) (trace ?s1)" by (rule prefix_order.trans)
  from ab c have "prefix (trace s) (trace (fst (show_status ?s1)))" by (rule prefix_order.trans)
  with ab d False show ?thesis
    by (simp add: run_iteration_cases and_then_fst_snd show_status_frame)
qed

lemma run_iteration_Popen:
  assumes P: "Popen k \<in> set (emitted s (fst (run_iteration env s)))"
  shows "\<exists>c \<in> set (cameras (config s)). cfg_id c = k \<and> cfg_enabled c"
proof (cases "ffmpeg_reconnect_delay (config s) < 0")
  case True
  with P show ?thesis by (simp add: run_iteration_cases emitted_def)
next
  case False
  let ?s0 = "slept (ffmpeg_reconnect_delay (config s)) s"
  let ?s1 = "fst (check_and_restart_recordings env ?s0)"
  let ?s2 = "fst (show_status ?s1)"
  have a: "prefix (trace s) (trace ?s0)" by (simp add: sleep_frame)
  have b: "prefix (trace ?s0) (trace ?s1)"
    using check_cameras_frame by (simp add: check_and_restart_recordings_def)
  have c: "prefix (trace ?s1) (trace ?s2)" by (rule show_status_frame)
  from a b have e1: "emitted s ?s1 = emitted s ?s0 @ emitted ?s0 ?s1" by (rule emitted_trans)
  from a b have ab: "prefix (trace s) (trace ?s1)" by (rule prefix_order.trans)
  from ab c have e2: "emitted s ?s2 = emitted s ?s1 @ emitted ?s1 ?s2" by (rule emitted_trans)
  have e0: "emitted s ?s0 = [Sleep (ffmpeg_reconnect_delay (config s))]"
    by (simp add: emitted_def sleep_frame)
  have "fst (run_iteration env s) = ?s1 \<or> fst (run_iteration env s) = ?s2"
    using False by (simp add: run_iteration_cases and_then_fst_snd)
  with P e1 e2 e0 have "Popen k \<in> set (emitted ?s0 ?s1)"
    using show_status_frame(5) [of k ?s1] by auto
  then show ?thesis
    using check_cameras_Popen [of k ?s0 env 0 "cameras (config ?s0)"]
    by (simp add: check_and_restart_recordings_def sleep_frame)
qed

lemma run_loop_frame:
  "config (fst (run_loop n i env s)) = config s \<and>
   prefix (trace s) (trace (fst (run_loop n i env s)))"
proof (induction n arbitrary: i s)
  case 0
  show ?case by simp
next
  case (Suc n)
  let ?s1 = "fst (run_iteration (env i) s)"
  have a: "prefix (trace s) (trace ?s1)" "config ?s1 = config s"
    using run_iteration_frame [of "env i" s] by simp_all
  have "prefix (trace ?s1) (trace (fst (run_loop n (Suc i) env ?s1)))"
    using Suc [of "Suc i" ?s1] by simp
  with a(1) have "prefix (trace s) (trace (fst (run_loop n (Suc i) env ?s1)))"
    by (rule prefix_order.trans)
  then show ?case using a Suc [of "Suc i" ?s1] by (simp add: and_then_fst_snd)
qed

lemma run_loop_Popen:
  "Popen k \<in> set (emitted s (fst (run_loop n i env s))) \<Longrightarrow>
   \<exists>c \<in> set (cameras (config s)). cfg_id c = k \<and> cfg_enabled c"
proof (induction n arbitrary: i s)
  case 0
  then show ?case by (simp add: emitted_def)
next
  case (Suc n)
  let ?s1 = "fst (run_iteration (env i) s)"
  let ?s2 = "fst (run_loop n (Suc i) env ?s1)"
  have a: "prefix (trace s) (trace ?s1)" "config ?s1 = config s"
    using run_iteration_frame [of "env i" s] by simp_all
  have b: "prefix (trace ?s1) (trace ?s2)" using run_loop_frame by blast
  from a(1) b have e: "emitted s ?s2 = emitted s ?s1 @ emitted ?s1 ?s2" by (rule emitted_trans)
  have "fst (run_loop (Suc n) i env s) = s \<or> fst (run_loop (Suc n) i env s) = ?s1 \<or>
        fst (run_loop (Suc n) i env s) = ?s2"
    by (simp add: and_then_fst_snd)
  with Suc.prems e have "Popen k \<in> set (emitted s ?s1) \<or> Popen k \<in> set (emitted ?s1 ?s2)"
    by (auto simp: emitted_def)
  then show ?case
  proof
    assume "Popen k \<in> set (emitted s ?s1)"
    then show ?thesis by (rule run_iteration_Popen)
  next
    assume "Popen k \<in> set (emitted ?s1 ?s2)"
    then show ?thesis using Suc.IH [of ?s1 "Suc i"] a(2) by simp
  qed
qed

subsection \<open>The workers of the preview server\<close>

lemma add_cameras_keys:
  "dict_in k (ws_cameras (foldl add_camera w cs)) \<longleftrightarrow>
     dict_in k (ws_cameras w) \<or> (\<exists>c \<in> set cs. cfg_id c = k \<and> cfg_enabled c)"
proof (induction cs arbitrary: w)
  case Nil
  show ?case by simp
next
  case (Cons c cs)
  have "dict_in k (ws_cameras (add_camera w c)) \<longleftrightarrow>
          dict_in k (ws_cameras w) \<or> (cfg_id c = k \<and> cfg_enabled c)"
    by (auto simp: add_camera_def dict_in_def dict_set_def update_conv')
  with Cons [of "add_camera w c"] show ?case by auto
qed

lemma start_init:
  "start (CameraStream_init c) = (CameraStream_init c)\<lparr>cs_running := True, thread := Some AtLoop\<rparr>"
  by (simp add: start_def CameraStream_init_def)

lemma add_cameras_started:
  "map_of (ws_cameras (foldl add_camera w cs)) k = Some x \<Longrightarrow>
   map_of (ws_cameras w) k = Some x \<or>
   (\<exists>c \<in> set cs. cfg_id c = k \<and> cfg_enabled c \<and> x = start (CameraStream_init c))"
proof (induction cs arbitrary: w)
  case Nil
  then show ?case by simp
next
  case (Cons c cs)
  from Cons.IH [OF Cons.prems [simplified]]
  show ?case
    by (auto simp: add_camera_def dict_set_def update_conv' split: if_splits)
qed

text \<open>
  Every worker of the preview server comes from an enabled entry of the configuration,
  under that entry's id, and has been started.
\<close>

lemma initialize_cameras_workers:
  assumes "map_of (ws_cameras (RTSPWebServer_init (Some cfg))) k = Some x"
  shows "\<exists>c \<in> set (cameras cfg). cfg_id c = k \<and> cfg_enabled c \<and>
           x = (CameraStream_init c)\<lparr>cs_running := True, thread := Some AtLoop\<rparr>"
  using add_cameras_started [of "\<lparr>ws_config = Some cfg, ws_cameras = []\<rparr>" "cameras cfg" k x] assms
  by (simp add: RTSPWebServer_init_def initialize_cameras_def start_init)

subsection \<open>Launches in \<open>run\<close> and in a reconcile pass\<close>

lemma run_for_Popen:
  "Popen k \<in> set (emitted s (fst (run_for n env0 env s))) \<Longrightarrow>
   \<exists>c \<in> set (cameras (config s)). cfg_id c = k \<and> cfg_enabled c"
proof -
  let ?s1 = "fst (run_startup env0 s)"
  let ?s2 = "emit [Print (ActiveAtStart (length (processes ?s1)))] ?s1"
  let ?s3 = "fst (run_loop n 0 env ?s2)"
  assume P: "Popen k \<in> set (emitted s (fst (run_for n env0 env s)))"
  have a: "prefix (trace s) (trace ?s1)" "config ?s1 = config s"
    using start_enabled_frame [of env0 0 "cameras (config s)" s] by (simp_all add: run_startup_def)
  have b: "prefix (trace ?s1) (trace ?s2)" "config ?s2 = config ?s1" by (simp_all add: emit_def)
  have c: "prefix (trace ?s2) (trace ?s3)" using run_loop_frame by blast
  from a(1) b(1) have ab: "prefix (trace s) (trace ?s2)" by (rule prefix_order.trans)
  from a(1) b(1) have e1: "emitted s ?s2 = emitted s ?s1 @ emitted ?s1 ?s2" by (rule emitted_trans)
  from ab c have e2: "emitted s ?s3 = emitted s ?s2 @ emitted ?s2 ?s3" by (rule emitted_trans)
  have e0: "emitted ?s1 ?s2 = [Print (ActiveAtStart (length (processes ?s1)))]"
    by (simp add: emitted_def emit_def)
  have "fst (run_for n env0 env s) = ?s1 \<or> fst (run_for n env0 env s) = ?s3"
    by (simp add: run_for_def and_then_fst_snd)
  with P e1 e2 e0 have "Popen k \<in> set (emitted s ?s1) \<or> Popen k \<in> set (emitted ?s2 ?s3)"
    by auto
  then show ?thesis
  proof
    assume "Popen k \<in> set (emitted s ?s1)"
    then show ?thesis using start_enabled_Popen by (simp add: run_startup_def)
  next
    assume "Popen k \<in> set (emitted ?s2 ?s3)"
    then show ?thesis using run_loop_Popen [of k ?s2 n 0 env] a(2) b(2) by simp
  qed
qed


subsection \<open>Runs of events\<close>

lemma process_exit_frame:
  "processes (process_exit h rc s) = processes s" "trace (process_exit h rc s) = trace s"
  "config (process_exit h rc s) = config s"
  by (simp_all add: process_exit_def)

lemma stop_recording_Popen: "Popen k \<notin> set (emitted s (fst (stop_recording cid r s)))"
proof (cases "map_of (processes s) cid")
  case None
  then show ?thesis by (simp add: stop_recording_absent dict_in_def emitted_def)
next
  case (Some p)
  then show ?thesis
    by (simp add: stop_recording_present emitted_def terminate_and_wait_trace emit_def
        split: reaction.splits)
qed

lemma exec_distinct:
  "distinct (map fst (processes s)) \<Longrightarrow> distinct (map fst (processes (fst (exec e s))))"
  by (cases e)
    (simp_all add: start_recording_distinct check_camera_distinct stop_recording_processes
      distinct_delete process_exit_frame)

lemma exec_Popen:
  assumes "Popen k \<in> set (emitted s (fst (exec e s)))"
  shows "\<not> is_recording s k"
proof (cases e)
  case (StartSegment camera l)
  with assms show ?thesis by (simp add: start_recording_Popen)
next
  case (StopSegment cid r)
  with assms show ?thesis by (simp add: stop_recording_Popen)
next
  case (ReconcileCamera camera l)
  with assms show ?thesis by (simp add: check_camera_Popen)
next
  case (ProcessExit h rc)
  with assms show ?thesis by (simp add: emitted_def process_exit_frame)
qed

lemma run_events_distinct:
  "distinct (map fst (processes s)) \<Longrightarrow> distinct (map fst (processes (fst (run_events es s))))"
proof (induction es arbitrary: s)
  case Nil
  then show ?case by simp
next
  case (Cons e es)
  have d: "distinct (map fst (processes (fst (exec e s))))"
    using Cons.prems by (rule exec_distinct)
  show ?case
  proof (cases "snd (exec e s) = None")
    case True
    then show ?thesis using Cons.IH [OF d] by (simp add: and_then_ok)
  next
    case False
    then show ?thesis using d by (simp add: and_then_raised)
  qed
qed

lemma filter_key_le_one:
  "distinct (map fst d) \<Longrightarrow> length (filter (\<lambda>(k, p). k = c \<and> P p) d) \<le> Suc 0"
proof (induction d)
  case Nil
  show ?case by simp
next
  case (Cons x d)
  obtain k p where x: "x = (k, p)" by (cases x)
  show ?case
  proof (cases "k = c")
    case True
    with Cons.prems x have "c \<notin> fst ` set d" by simp
    then have "filter (\<lambda>(k, p). k = c \<and> P p) d = []"
      by (force simp: filter_empty_conv)
    with x show ?thesis by simp
  next
    case False
    with Cons x show ?thesis by simp
  qed
qed

lemma live_handles_le_one:
  "distinct (map fst (processes s)) \<Longrightarrow> length (live_handles s cid) \<le> 1"
  using filter_key_le_one [of "processes s" cid "\<lambda>p. poll s p = None"]
  by (simp add: live_handles_def)

lemma live_handles_empty:
  assumes "distinct (map fst (processes s))" "\<not> is_recording s cid"
  shows "live_handles s cid = []"
proof -
  have "\<not> (k = cid \<and> poll s p = None)" if "(k, p) \<in> set (processes s)" for k p
  proof
    assume a: "k = cid \<and> poll s p = None"
    with that have "(cid, p) \<in> set (processes s)" by simp
    with assms(1) have "map_of (processes s) cid = Some p" by (rule map_of_is_SomeI)
    with a assms(2) show False by (simp add: is_recording_def)
  qed
  then show ?thesis by (fastforce simp: live_handles_def filter_empty_conv)
qed

lemma upt_add_Suc: "[i..<i + Suc n] = i # [Suc i..<Suc i + n]"
  using upt_conv_Cons [of i "i + Suc n"] by simp

lemma check_cameras_events:
  "check_cameras env i cs s =
     run_events (map (\<lambda>(j, c). ReconcileCamera c (env j)) (zip [i..<i + length cs] cs)) s"
proof (induction cs arbitrary: i s)
  case Nil
  show ?case by simp
next
  case (Cons c cs)
  have "[i..<i + length (c # cs)] = i # [Suc i..<Suc i + length cs]"
    using upt_add_Suc [of i "length cs"] by simp
  then show ?case using Cons.IH [of "Suc i"] by (simp add: and_then_fst_snd)
qed

lemma start_enabled_events:
  "start_enabled env i cs s =
     run_events (map (\<lambda>(j, c). StartSegment c (env j))
                  (filter (\<lambda>(j, c). cfg_enabled c) (zip [i..<i + length cs] cs))) s"
proof (induction cs arbitrary: i s)
  case Nil
  show ?case by simp
next
  case (Cons c cs)
  have "[i..<i + length (c # cs)] = i # [Suc i..<Suc i + length cs]"
    using upt_add_Suc [of i "length cs"] by simp
  then show ?case using Cons.IH [of "Suc i"] by (simp add: and_then_fst_snd)
qed

lemma stop_keys_events:
  "stop_keys env ks s = run_events (map (\<lambda>k. StopSegment k (env k)) ks) s"
  by (induction ks arbitrary: s) (simp_all add: and_then_fst_snd)

subsection \<open>Iterations in which every launch fails at once\<close>

lemma py_int_of_int: "py_int (of_int a) = a"
  by (simp add: py_int_def)

text \<open>
  An iteration of the main loop for the example configuration when nothing is registered
  and the subprocess of \<open>cam1\<close> exits at once: it takes 7 time units, 5 asleep and 2 for
  the settle delay.
\<close>

lemma failing_check:
  assumes "config s = example_config" "processes s = []"
  shows "check_and_restart_recordings (\<lambda>_. Spawned (Some rc) out err) s =
     (s\<lparr>next_handle := Suc (next_handle s), status := (status s)(next_handle s := Some rc),
        now := now s + 2,
        trace := trace s @
          [Print (Restarting ''Entrance'' ''cam1''),
           Print (StartingRecording ''Entrance'' ''cam1''), Print (Url ''rtsp://10.0.0.5/stream1''),
           Popen ''cam1'', Sleep 2, Communicate (next_handle s), Print FfmpegFailedImmediately,
           Print (Stdout out), Print (Stderr err)]\<rparr>, None)"
proof -
  let ?s1 = "emit [Print (Restarting (cfg_name example_cam1) (cfg_id example_cam1))] s"
  have n: "\<not> is_recording ?s1 (cfg_id example_cam1)"
    using assms(2) by (simp add: is_recording_def emit_def)
  have "check_camera example_cam1 (Spawned (Some rc) out err) s =
          start_recording example_cam1 (Spawned (Some rc) out err) ?s1"
    using assms(2)
    by (simp add: check_camera_def discard_finished_eq and_then_def example_cam1_def)
  also have "\<dots> = (s\<lparr>next_handle := Suc (next_handle s), status := (status s)(next_handle s := Some rc),
        now := now s + 2,
        trace := trace s @
          [Print (Restarting ''Entrance'' ''cam1''),
           Print (StartingRecording ''Entrance'' ''cam1''), Print (Url ''rtsp://10.0.0.5/stream1''),
           Popen ''cam1'', Sleep 2, Communicate (next_handle s), Print FfmpegFailedImmediately,
           Print (Stdout out), Print (Stderr err)]\<rparr>, None)"
    unfolding start_recording_exited [OF n] by (simp add: emit_def example_cam1_def)
  finally have c1: "check_camera example_cam1 (Spawned (Some rc) out err) s = \<dots>" .
  have c2: "check_camera example_cam2 l s' = (s', None)" for l s'
    by (simp add: check_camera_skip example_cam2_def)
  show ?thesis
    using assms(1)
    by (simp add: check_and_restart_recordings_def example_config_def c1 c2 and_then_def)
qed

lemma failing_iteration:
  assumes "config s = example_config" "processes s = []"
  shows "snd (run_iteration (\<lambda>_. Spawned (Some rc) out err) s) = None"
    and "config (fst (run_iteration (\<lambda>_. Spawned (Some rc) out err) s)) = example_config"
    and "processes (fst (run_iteration (\<lambda>_. Spawned (Some rc) out err) s)) = []"
    and "running (fst (run_iteration (\<lambda>_. Spawned (Some rc) out err) s)) = running s"
    and "now (fst (run_iteration (\<lambda>_. Spawned (Some rc) out err) s)) = now s + 7"
    and "status_lines (emitted s (fst (run_iteration (\<lambda>_. Spawned (Some rc) out err) s))) =
           (if py_int (now s + 7) mod 300 = 0 then [Print (Status 0 (now s + 7))] else [])"
proof -
  let ?env = "\<lambda>_::nat. Spawned (Some rc) out err"
  let ?s0 = "slept 5 s"
  let ?s1 = "fst (check_and_restart_recordings ?env ?s0)"
  have d: "ffmpeg_reconnect_delay (config s) = 5"
    using assms(1) by (simp add: example_config_def)
  have s0: "config ?s0 = example_config" "processes ?s0 = []"
    using assms by (simp_all add: sleep_frame)
  note c = failing_check [OF s0, of rc out err]
  have s1: "snd (check_and_restart_recordings ?env ?s0) = None"
    "config ?s1 = example_config" "processes ?s1 = []" "running ?s1 = running s"
    using assms by (simp_all add: c sleep_frame)
  have n1: "now ?s1 = now s + 7"
    unfolding c by (simp add: sleep_frame)
  have t1: "status_lines (emitted s ?s1) = []"
    unfolding c by (simp add: emitted_def sleep_frame status_lines_def)
  have r: "run_iteration ?env s = show_status ?s1"
    using s1(1) by (simp add: run_iteration_cases d and_then_ok)
  show "snd (run_iteration ?env s) = None" by (simp add: r show_status_frame)
  show "config (fst (run_iteration ?env s)) = example_config"
    by (simp add: r show_status_frame s1)
  show "processes (fst (run_iteration ?env s)) = []"
    by (simp add: r show_status_def emit_def s1)
  show "running (fst (run_iteration ?env s)) = running s"
    by (simp add: r show_status_frame s1)
  show "now (fst (run_iteration ?env s)) = now s + 7"
    by (simp add: r show_status_def emit_def n1)
  have p1: "prefix (trace s) (trace ?s1)"
    unfolding c by (simp add: sleep_frame)
  have p2: "prefix (trace ?s1) (trace (fst (show_status ?s1)))" by (rule show_status_frame)
  from p1 p2 have "emitted s (fst (show_status ?s1)) = emitted s ?s1 @ emitted ?s1 (fst (show_status ?s1))"
    by (rule emitted_trans)
  moreover have "emitted ?s1 (fst (show_status ?s1)) =
      (if py_int (now s + 7) mod 300 = 0 then [Print (Status 0 (now s + 7))] else [])"
    by (simp add: show_status_def emit_def emitted_def n1 active_count_def s1)
  ultimately show "status_lines (emitted s (fst (run_iteration ?env s))) =
           (if py_int (now s + 7) mod 300 = 0 then [Print (Status 0 (now s + 7))] else [])"
    using t1 by (simp add: r status_lines_def)
qed

lemma failing_loop:
  assumes "config s = example_config" "processes s = []" "running s" "now s = of_int a"
    "\<forall>k. 1 \<le> k \<and> k \<le> int n \<longrightarrow> (a + 7 * k) mod 300 \<noteq> 0"
  shows "status_lines (emitted s (fst (run_loop n i (\<lambda>_ _. Spawned (Some rc) out err) s))) = [] \<and>
         now (fst (run_loop n i (\<lambda>_ _. Spawned (Some rc) out err) s)) = of_int (a + 7 * int n)"
  using assms
proof (induction n arbitrary: s a i)
  case 0
  then show ?case by (simp add: emitted_def status_lines_def)
next
  case (Suc n)
  let ?env = "\<lambda>(_::nat) (_::nat). Spawned (Some rc) out err"
  let ?s1 = "fst (run_iteration (?env i) s)"
  let ?s2 = "fst (run_loop n (Suc i) ?env ?s1)"
  note it = failing_iteration [OF Suc.prems(1,2), of rc out err]
  have "(a + 7 * 1) mod 300 \<noteq> 0"
    by (rule Suc.prems(5) [rule_format]) simp
  then have a7: "(a + 7) mod 300 \<noteq> 0" by simp
  have "now s + 7 = of_int (a + 7)" using Suc.prems(4) by simp
  then have py: "py_int (now s + 7) = a + 7" by (simp only: py_int_of_int)
  have t: "py_int (now s + 7) mod 300 \<noteq> 0" unfolding py by (rule a7)
  have s1: "config ?s1 = example_config" "processes ?s1 = []" "running ?s1"
    "now ?s1 = of_int (a + 7)"
    using Suc.prems(3,4) it(2-5) by simp_all
  have e1: "status_lines (emitted s ?s1) = []"
    using t it(6) by simp
  have "\<forall>k. 1 \<le> k \<and> k \<le> int n \<longrightarrow> ((a + 7) + 7 * k) mod 300 \<noteq> 0"
  proof (intro allI impI)
    fix k assume "1 \<le> k \<and> k \<le> int n"
    then have "1 \<le> k + 1 \<and> k + 1 \<le> int (Suc n)" by simp
    then have X: "(a + 7 * (k + 1)) mod 300 \<noteq> 0"
      by (rule Suc.prems(5) [rule_format])
    have eq: "a + 7 * (k + 1) = (a + 7) + 7 * k" by simp
    show "((a + 7) + 7 * k) mod 300 \<noteq> 0" using X unfolding eq .
  qed
  note ih = Suc.IH [OF s1 this, of "Suc i"]
  have p1: "prefix (trace s) (trace ?s1)" using run_iteration_frame by blast
  have p2: "prefix (trace ?s1) (trace ?s2)" using run_loop_frame by blast
  from p1 p2 have "emitted s ?s2 = emitted s ?s1 @ emitted ?s1 ?s2" by (rule emitted_trans)
  then have A: "status_lines (emitted s ?s2) = []"
    using e1 ih by (simp add: status_lines_def)
  have "a + 7 + 7 * int n = a + 7 * int (Suc n)" by simp
  then have B: "now ?s2 = of_int (a + 7 * int (Suc n))"
    using ih by simp
  have C: "run_loop (Suc n) i ?env s = run_loop n (Suc i) ?env ?s1"
    using Suc.prems(3) it(1) by (simp add: and_then_ok)
  show ?case unfolding C using A B by (rule conjI)
qed

lemma no_multiple_of_300:
  "\<forall>k. 1 \<le> k \<and> k \<le> int 43 \<longrightarrow> (1699999801 + 7 * k) mod 300 \<noteq> 0"
proof (intro allI impI)
  fix k :: int
  assume k: "1 \<le> k \<and> k \<le> int 43"
  have "1699999801 + 7 * k = (1 + 7 * k) + 5666666 * 300" by simp
  then have m: "(1699999801 + 7 * k) mod 300 = (1 + 7 * k) mod 300"
    by (simp only: mod_mult_self1)
  have "(1 + 7 * k) mod 300 \<noteq> 0"
  proof (cases "k = 43")
    case True
    then show ?thesis by simp
  next
    case False
    with k have "0 \<le> 1 + 7 * k" "1 + 7 * k < 300" by simp_all
    then have "(1 + 7 * k) mod 300 = 1 + 7 * k" by (rule mod_pos_pos_trivial)
    with k show ?thesis by simp
  qed
  with m show "(1699999801 + 7 * k) mod 300 \<noteq> 0" by simp
qed

subsection \<open>Rounding\<close>

text \<open>
  \<open>exponent64\<close> finds the binade, and rounding a number that is 10 or more never gives a
  number below 10 (which is a binary64 number itself).
\<close>

lemma round_half_even_ge: "of_int N \<le> y \<Longrightarrow> N \<le> round_half_even y"
proof -
  assume "of_int N \<le> y"
  then have "N \<le> \<lfloor>y\<rfloor>" by (simp add: le_floor_iff)
  then show ?thesis by (simp add: round_half_even_def Let_def)
qed

lemma exponent64_bounds:
  assumes "x \<noteq> 0"
  shows "2 powi exponent64 x \<le> \<bar>x\<bar> \<and> \<bar>x\<bar> < 2 powi (exponent64 x + 1)"
proof (cases "1 \<le> \<bar>x\<bar>")
  case True
  let ?n = "\<lfloor>\<bar>x\<bar>\<rfloor>"
  from True have n: "0 < ?n" by simp
  from bitlen_bounds [OF n] have b: "2 ^ nat (bitlen ?n - 1) \<le> ?n" "?n < 2 ^ nat (bitlen ?n)"
    by simp_all
  from n have k: "1 \<le> bitlen ?n" by (simp add: bitlen_alt_def)
  have e: "exponent64 x = bitlen ?n - 1" using True by (simp add: exponent64_def)
  have "(2::real) powi (bitlen ?n - 1) = 2 ^ nat (bitlen ?n - 1)"
    using k by (simp add: power_int_def)
  also have "\<dots> = of_int (2 ^ nat (bitlen ?n - 1))" by simp
  also have "\<dots> \<le> of_int ?n" using b(1) by (simp only: of_int_le_iff)
  also have "\<dots> \<le> \<bar>x\<bar>" by simp
  finally have lo: "2 powi (bitlen ?n - 1) \<le> \<bar>x\<bar>" .
  have "?n + 1 \<le> 2 ^ nat (bitlen ?n)" using b(2) by simp
  then have "of_int (?n + 1) \<le> (of_int (2 ^ nat (bitlen ?n)) :: real)" by (simp only: of_int_le_iff)
  then have "of_int ?n + 1 \<le> (2::real) ^ nat (bitlen ?n)" by simp
  moreover have "\<bar>x\<bar> < of_int ?n + 1" by linarith
  ultimately have "\<bar>x\<bar> < (2::real) ^ nat (bitlen ?n)" by linarith
  moreover have "(2::real) powi (bitlen ?n - 1 + 1) = 2 ^ nat (bitlen ?n)"
    using k by (simp add: power_int_def)
  ultimately have hi: "\<bar>x\<bar> < 2 powi (bitlen ?n - 1 + 1)" by simp
  from lo hi show ?thesis unfolding e by simp
next
  case False
  with assms have a: "0 < \<bar>x\<bar>" "\<bar>x\<bar> < 1" by simp_all
  let ?y = "1 / \<bar>x\<bar>"
  let ?m = "\<lceil>?y\<rceil>"
  from a have y: "1 < ?y" by simp
  then have m: "0 < ?m - 1" by (simp add: less_ceiling_iff)
  let ?k = "bitlen (?m - 1)"
  from bitlen_bounds [OF m] have b: "2 ^ nat (?k - 1) \<le> ?m - 1" "?m - 1 < 2 ^ nat ?k"
    by simp_all
  from m have k: "1 \<le> ?k" by (simp add: bitlen_alt_def)
  have e: "exponent64 x = - ?k" using False by (simp add: exponent64_def)
  have "?m \<le> 2 ^ nat ?k" using b(2) by simp
  then have "of_int ?m \<le> (of_int (2 ^ nat ?k) :: real)" by (simp only: of_int_le_iff)
  then have A: "of_int ?m \<le> (2::real) ^ nat ?k" by simp
  have B: "?y \<le> of_int ?m" by (rule le_of_int_ceiling)
  from B A have "?y \<le> 2 ^ nat ?k" by (rule order_trans)
  then have "1 / 2 ^ nat ?k \<le> \<bar>x\<bar>" using a(1) by (simp add: field_simps)
  moreover have "(2::real) powi (- ?k) = 1 / 2 ^ nat ?k"
    using k by (simp add: power_int_def field_simps)
  ultimately have lo: "2 powi (- ?k) \<le> \<bar>x\<bar>" by simp
  have "(of_int (2 ^ nat (?k - 1)) :: real) \<le> of_int (?m - 1)" using b(1) by (simp only: of_int_le_iff)
  then have C: "(2::real) ^ nat (?k - 1) \<le> of_int (?m - 1)" by simp
  have D: "of_int (?m - 1) < ?y" using ceiling_correct [of ?y] by simp
  from C D have "2 ^ nat (?k - 1) < ?y" by (rule order_le_less_trans)
  then have "\<bar>x\<bar> < 1 / 2 ^ nat (?k - 1)" using a(1) by (simp add: field_simps)
  moreover have "(2::real) powi (- ?k + 1) = 1 / 2 ^ nat (?k - 1)"
  proof -
    have "- ?k + 1 = - (?k - 1)" by simp
    then have "(2::real) powi (- ?k + 1) = 2 powi (- (?k - 1))" by simp
    also have "\<dots> = 1 / 2 powi (?k - 1)" by (rule power_int_minus_divide)
    also have "\<dots> = 1 / 2 ^ nat (?k - 1)" using k by (simp add: power_int_def)
    finally show ?thesis .
  qed
  ultimately have hi: "\<bar>x\<bar> < 2 powi (- ?k + 1)" by simp
  from lo hi show ?thesis unfolding e by simp
qed

lemma round64_ge_10:
  assumes "10 \<le> x"
  shows "10 \<le> round64 x"
proof -
  let ?e = "exponent64 x"
  let ?u = "(2::real) powi (?e - 52)"
  from assms have x: "x \<noteq> 0" "\<bar>x\<bar> = x" by simp_all
  from exponent64_bounds [OF x(1)] x(2) have b: "2 powi ?e \<le> x" "x < 2 powi (?e + 1)"
    by simp_all
  have u: "0 < ?u" by (simp add: zero_less_power_int)
  have e3: "3 \<le> ?e"
  proof (rule ccontr)
    assume "\<not> 3 \<le> ?e"
    then have "?e + 1 \<le> 3" by simp
    then have "(2::real) powi (?e + 1) \<le> 2 powi 3" by (intro power_int_increasing) simp_all
    with b(2) assms show False by simp
  qed
  have r: "round64 x = of_int (round_half_even (x / ?u)) * ?u"
    using x(1) by (simp add: round64_def)
  show ?thesis
  proof (cases "?e \<le> 53")
    case True
    let ?N = "5 * 2 ^ nat (53 - ?e) :: int"
    have "(2::real) powi ((53 - ?e) + (?e - 52)) = 2 powi (53 - ?e) * ?u"
      by (rule power_int_add) simp
    moreover have "(53 - ?e) + (?e - 52) = 1" by simp
    ultimately have p: "(2::real) powi (53 - ?e) * ?u = 2" by simp
    have "(2::real) powi (53 - ?e) = 2 ^ nat (53 - ?e)" using True by (simp add: power_int_def)
    then have "2 ^ nat (53 - ?e) * ?u = 2" using p by simp
    then have "5 * (2 ^ nat (53 - ?e) * ?u) = 10" by simp
    then have N: "of_int ?N * ?u = 10" by (simp add: mult.assoc)
    then have "of_int ?N = 10 / ?u" using u by (simp add: field_simps)
    also have "\<dots> \<le> x / ?u" using assms u by (simp add: divide_right_mono)
    finally have "?N \<le> round_half_even (x / ?u)" by (rule round_half_even_ge)
    then have "(of_int ?N :: real) \<le> of_int (round_half_even (x / ?u))"
      by (simp only: of_int_le_iff)
    then have le: "of_int ?N * ?u \<le> of_int (round_half_even (x / ?u)) * ?u"
      using u by (intro mult_right_mono) simp_all
    have "10 = of_int ?N * ?u" by (rule N [symmetric])
    also note le
    also have "of_int (round_half_even (x / ?u)) * ?u = round64 x" by (rule r [symmetric])
    finally show ?thesis .
  next
    case False
    let ?N = "2 ^ 52 :: int"
    have "(2::real) powi (52 + (?e - 52)) = 2 powi 52 * ?u"
      by (rule power_int_add) simp
    moreover have "52 + (?e - 52) = ?e" by simp
    ultimately have p: "of_int ?N * ?u = 2 powi ?e" by simp
    then have "of_int ?N = 2 powi ?e / ?u" using u by (simp add: field_simps)
    also have "\<dots> \<le> x / ?u" using b(1) u by (simp add: divide_right_mono)
    finally have "?N \<le> round_half_even (x / ?u)" by (rule round_half_even_ge)
    then have "(of_int ?N :: real) \<le> of_int (round_half_even (x / ?u))"
      by (simp only: of_int_le_iff)
    then have le: "of_int ?N * ?u \<le> of_int (round_half_even (x / ?u)) * ?u"
      using u by (intro mult_right_mono) simp_all
    have "(2::real) powi 4 \<le> 2 powi ?e"
      using False by (intro power_int_increasing) simp_all
    then have "10 \<le> (2::real) powi ?e" by simp
    also have "2 powi ?e = of_int ?N * ?u" by (rule p [symmetric])
    also note le
    also have "of_int (round_half_even (x / ?u)) * ?u = round64 x" by (rule r [symmetric])
    finally show ?thesis .
  qed
qed

lemma fsub_ge_10: "10 \<le> a - b \<Longrightarrow> 10 \<le> fsub a b"
  by (simp add: fsub_def round64_ge_10)

subsection \<open>The camera worker\<close>

lemma get_frame_cases:
  "get_frame t s =
     (if last_frame s \<noteq> None \<and> fsub t (last_frame_time s) < 10
      then (Some (next_ref s),
            s\<lparr>heap := (heap s)(next_ref s := heap s (the (last_frame s))),
              next_ref := Suc (next_ref s)\<rparr>)
      else (None, s))"
  by (simp add: get_frame_def split: option.splits)

lemma capture_step_no_frame:
  assumes "\<forall>img t. a \<noteq> Frame img t"
  shows "last_frame (capture_step a s) = last_frame s \<and>
         last_frame_time (capture_step a s) = last_frame_time s"
  using assms
  by (cases a; cases "thread s"; simp add: capture_step_def release_def Let_def
      split: pc.splits option.splits)

lemma capture_steps_no_frame:
  "\<forall>a \<in> set as. \<forall>img t. a \<noteq> Frame img t \<Longrightarrow>
   last_frame (capture_steps as s) = last_frame s \<and>
   last_frame_time (capture_steps as s) = last_frame_time s"
proof (induction as arbitrary: s)
  case Nil
  show ?case by (simp add: capture_steps_def)
next
  case (Cons a as)
  have "capture_steps (a # as) s = capture_steps as (capture_step a s)"
    by (simp add: capture_steps_def)
  moreover have "\<forall>img t. a \<noteq> Frame img t" using Cons.prems by simp
  ultimately show ?case
    using Cons.IH [of "capture_step a s"] Cons.prems capture_step_no_frame [of a s] by simp
qed

text \<open>
  The worker after \<open>start()\<close>, once the capture thread has entered \<open>cv2.VideoCapture\<close>.
\<close>

lemma connecting_state:
  "capture_steps [Go] (start (CameraStream_init camera)) =
     (CameraStream_init camera)\<lparr>cs_running := True, thread := Some InConnect\<rparr>"
  by (simp add: capture_steps_def capture_step_def start_def CameraStream_init_def)

text \<open>
  \<open>stop()\<close> while the capture thread is blocked in \<open>read()\<close> and stays there during the
  join: the capture object is released once, a second \<open>stop()\<close> releases nothing, and the
  thread, when \<open>read()\<close> returns without a frame, leaves the loop without releasing.
\<close>

lemma stop_while_reading:
  assumes "thread s = Some (InRead h)" "cap s = Some h"
  shows "releases (stop [] s) h = Suc (releases s h)"
    and "cap (stop [] s) = None"
    and "stop [] (stop [] s) = stop [] s"
    and "releases (capture_steps [NoFrame, Go] (stop [] s)) h = Suc (releases s h)"
    and "thread (capture_steps [NoFrame, Go] (stop [] s)) = Some Finished"
  using assms
  by (simp_all add: stop_def capture_steps_def capture_step_def release_def Let_def)

subsection \<open>Registered handles\<close>
























subsection \<open>Runs of a camera worker\<close>






















section \<open>Stopping a segment\<close>

text \<open>
  Claim C10. \<open>stop_recording\<close> for a camera id with no entry in the process table returns
  without raising and leaves the whole state, the table included, as it was. So a second
  \<open>stop_recording\<close> for the same camera does nothing, \<open>stop_all_recordings\<close> on an empty
  table does nothing, and neither does a second \<open>stop_all_recordings\<close>.
\<close>

theorem stop_recording_no_entry:
  "(\<not> dict_in cid (processes s) \<longrightarrow> stop_recording cid r s = (s, None)) \<and>
   stop_recording cid r' (fst (stop_recording cid r s)) = (fst (stop_recording cid r s), None) \<and>
   (processes s = [] \<longrightarrow> stop_all_recordings env s = (s, None)) \<and>
   stop_all_recordings env' (fst (stop_all_recordings env s)) =
     (fst (stop_all_recordings env s), None)"
proof (intro conjI impI)
  assume "\<not> dict_in cid (processes s)"
  then show "stop_recording cid r s = (s, None)" by (rule stop_recording_absent)
next
  have "\<not> dict_in cid (processes (fst (stop_recording cid r s)))"
    by (simp add: stop_recording_processes dict_in_delete)
  then show "stop_recording cid r' (fst (stop_recording cid r s)) =
      (fst (stop_recording cid r s), None)"
    by (rule stop_recording_absent)
next
  assume "processes s = []"
  then show "stop_all_recordings env s = (s, None)" by (simp add: stop_all_recordings_def)
next
  have "processes (fst (stop_all_recordings env s)) = []"
    by (rule stop_all_recordings_empties)
  then show "stop_all_recordings env' (fst (stop_all_recordings env s)) =
      (fst (stop_all_recordings env s), None)"
    by (simp add: stop_all_recordings_def)
qed

theorem stop_recording_no_entry_witness:
  "\<not> dict_in ''cam2'' (processes example_recording) \<and>
   stop_recording ''cam2'' Hangs example_recording = (example_recording, None) \<and>
   stop_recording ''cam1'' Hangs (fst (stop_recording ''cam1'' Hangs example_recording)) =
     (fst (stop_recording ''cam1'' Hangs example_recording), None) \<and>
   processes (RTSPRecorder_init example_config 0) = [] \<and>
   stop_all_recordings (\<lambda>_. Hangs) (RTSPRecorder_init example_config 0) =
     (RTSPRecorder_init example_config 0, None)"
proof -
  have a: "\<not> dict_in ''cam2'' (processes example_recording)"
    by (simp add: example_recording_eq dict_in_def)
  have e: "processes (RTSPRecorder_init example_config 0) = []"
    by (simp add: RTSPRecorder_init_def)
  show ?thesis
    using a e
      stop_recording_no_entry [of "''cam2''" example_recording Hangs Hangs "\<lambda>_. Hangs" "\<lambda>_. Hangs"]
      stop_recording_no_entry [of "''cam1''" example_recording Hangs Hangs "\<lambda>_. Hangs" "\<lambda>_. Hangs"]
      stop_recording_no_entry [of "''cam1''" "RTSPRecorder_init example_config 0" Hangs Hangs
        "\<lambda>_. Hangs" "\<lambda>_. Hangs"]
    by blast
qed



text \<open>
  Claim C5. \<open>stop_recording\<close> never raises, and afterwards no handle is registered for the
  camera, whatever the subprocess did; the other entries stay. If a handle was registered
  and still running, it is asked to terminate and waited for: when it exits within 10
  time units nothing more happens, otherwise the wait ends after 10 time units and the
  subprocess is killed. If the registered handle had already exited, nothing is sent to
  it. The call takes at most 10 time units.
\<close>

theorem stop_recording_unregisters:
  "snd (stop_recording cid r s) = None \<and>
   \<not> dict_in cid (processes (fst (stop_recording cid r s))) \<and>
   (\<forall>k. k \<noteq> cid \<longrightarrow> map_of (processes (fst (stop_recording cid r s))) k = map_of (processes s) k) \<and>
   now (fst (stop_recording cid r s)) - now s \<le> 10 \<and>
   (\<forall>p. map_of (processes s) cid = Some p \<longrightarrow>
      emitted s (fst (stop_recording cid r s)) =
        (if poll s p = None
         then Print (Stopping cid p) # Terminate p #
              (case r of
                 ExitsAfter d rc \<Rightarrow> if d \<le> 10 then [Wait p d] else [Wait p 10, Kill p]
               | Hangs \<Rightarrow> [Wait p 10, Kill p])
         else []))"
proof (intro conjI allI impI)
  show "snd (stop_recording cid r s) = None" by (rule stop_recording_returns)
  show "\<not> dict_in cid (processes (fst (stop_recording cid r s)))"
    by (simp add: stop_recording_processes dict_in_delete)
  show "map_of (processes (fst (stop_recording cid r s))) k = map_of (processes s) k" if "k \<noteq> cid" for k
    using that by (simp add: stop_recording_processes)
  show "now (fst (stop_recording cid r s)) - now s \<le> 10"
  proof (cases "map_of (processes s) cid")
    case None
    then show ?thesis by (simp add: stop_recording_absent dict_in_def)
  next
    case (Some p)
    then show ?thesis
      using terminate_and_wait_now [of p r "emit [Print (Stopping cid p)] s"]
      by (simp add: stop_recording_present emit_def)
  qed
  show "emitted s (fst (stop_recording cid r s)) =
        (if poll s p = None
         then Print (Stopping cid p) # Terminate p #
              (case r of
                 ExitsAfter d rc \<Rightarrow> if d \<le> 10 then [Wait p d] else [Wait p 10, Kill p]
               | Hangs \<Rightarrow> [Wait p 10, Kill p])
         else [])" if "map_of (processes s) cid = Some p" for p
    using that
    by (simp add: stop_recording_present emitted_def terminate_and_wait_trace emit_def
        split: reaction.splits)
qed


theorem stop_recording_unregisters_witness:
  "map_of (processes example_recording) ''cam1'' = Some 0 \<and>
   poll example_recording 0 = None \<and>
   \<not> dict_in ''cam1'' (processes (fst (stop_recording ''cam1'' Hangs example_recording))) \<and>
   emitted example_recording (fst (stop_recording ''cam1'' Hangs example_recording)) =
     [Print (Stopping ''cam1'' 0), Terminate 0, Wait 0 10, Kill 0]"
proof -
  have h: "map_of (processes example_recording) ''cam1'' = Some 0"
    by (simp add: example_recording_eq)
  have l: "poll example_recording 0 = None"
    by (simp add: example_recording_eq poll_def)
  show ?thesis
    using h l stop_recording_unregisters [of "''cam1''" Hangs example_recording]
    by simp
qed


section \<open>Starting a segment\<close>

text \<open>
  Claim C4. While the registered subprocess of the camera is still running,
  \<open>start_recording\<close> only prints the warning: the process table and everything else but
  the output stay as they were. Otherwise, when the launched subprocess has already
  exited at the one \<open>poll\<close> after the settle delay of 2 time units, \<open>start_recording\<close>
  drains its pipes, prints both, and leaves the process table as it was.
\<close>

theorem start_recording_running_or_failed:
  "(is_recording s (cfg_id camera) \<longrightarrow>
      start_recording camera l s =
        (s\<lparr>trace := trace s @ [Print (AlreadyRecording (cfg_id camera))]\<rparr>, None)) \<and>
   (\<not> is_recording s (cfg_id camera) \<longrightarrow>
      snd (start_recording camera (Spawned (Some rc) out err) s) = None \<and>
      processes (fst (start_recording camera (Spawned (Some rc) out err) s)) = processes s \<and>
      now (fst (start_recording camera (Spawned (Some rc) out err) s)) = now s + 2 \<and>
      emitted s (fst (start_recording camera (Spawned (Some rc) out err) s)) =
        [Print (StartingRecording (cfg_name camera) (cfg_id camera)), Print (Url (cfg_rtsp_url camera)),
         Popen (cfg_id camera), Sleep 2, Communicate (next_handle s), Print FfmpegFailedImmediately,
         Print (Stdout out), Print (Stderr err)])"
  by (simp add: start_recording_live start_recording_exited emitted_def)

theorem start_recording_running_or_failed_witness:
  "is_recording example_recording ''cam1'' \<and>
   start_recording example_cam1 (Spawned None [] []) example_recording =
     (example_recording\<lparr>trace := trace example_recording @ [Print (AlreadyRecording ''cam1'')]\<rparr>, None) \<and>
   \<not> is_recording (RTSPRecorder_init example_config 0) ''cam1'' \<and>
   processes (fst (start_recording example_cam1 (Spawned (Some 1) [] ''no route to host'')
                     (RTSPRecorder_init example_config 0))) = [] \<and>
   emitted (RTSPRecorder_init example_config 0)
     (fst (start_recording example_cam1 (Spawned (Some 1) [] ''no route to host'')
             (RTSPRecorder_init example_config 0))) =
     [Print (StartingRecording ''Entrance'' ''cam1''), Print (Url ''rtsp://10.0.0.5/stream1''),
      Popen ''cam1'', Sleep 2, Communicate 0, Print FfmpegFailedImmediately,
      Print (Stdout []), Print (Stderr ''no route to host'')]"
proof -
  have a: "is_recording example_recording (cfg_id example_cam1)"
    by (simp add: example_recording_eq is_recording_def poll_def example_cam1_def)
  have b: "\<not> is_recording (RTSPRecorder_init example_config 0) (cfg_id example_cam1)"
    by (simp add: RTSPRecorder_init_def is_recording_def)
  have c: "cfg_id example_cam1 = ''cam1''" "cfg_name example_cam1 = ''Entrance''"
    "cfg_rtsp_url example_cam1 = ''rtsp://10.0.0.5/stream1''"
    by (simp_all add: example_cam1_def)
  have d: "processes (RTSPRecorder_init example_config 0) = []"
    "next_handle (RTSPRecorder_init example_config 0) = 0"
    by (simp_all add: RTSPRecorder_init_def)
  show ?thesis
    using a b
      start_recording_running_or_failed [of example_recording example_cam1 "Spawned None [] []" 1 "[]" "[]"]
      start_recording_running_or_failed [of "RTSPRecorder_init example_config 0" example_cam1
        "Spawned None [] []" 1 "[]" "''no route to host''"]
    by (simp add: c d)
qed



section \<open>Launch failures\<close>




section \<open>Disabled cameras\<close>

text \<open>
  Claim C7. Take a camera id all of whose entries in the configuration have
  \<open>enabled = false\<close>. The preview server's initialization creates no worker under that
  id; and the recorder never calls \<open>Popen\<close> for it: not in \<open>run\<close>, however many iterations
  of the loop are observed, and not in a startup pass or a reconcile pass from any state.
\<close>

theorem disabled_camera_never_started:
  assumes "\<forall>c \<in> set (cameras cfg). cfg_id c = cid \<longrightarrow> \<not> cfg_enabled c"
  shows "\<not> dict_in cid (ws_cameras (RTSPWebServer_init (Some cfg))) \<and>
         Popen cid \<notin> set (trace (fst (run_for n env0 env (RTSPRecorder_init cfg t)))) \<and>
         (config s = cfg \<longrightarrow>
            Popen cid \<notin> set (emitted s (fst (run_startup env0 s))) \<and>
            Popen cid \<notin> set (emitted s (fst (check_and_restart_recordings env0 s))))"
proof (intro conjI impI)
  show "\<not> dict_in cid (ws_cameras (RTSPWebServer_init (Some cfg)))"
  proof -
    have "\<not> dict_in cid (ws_cameras \<lparr>ws_config = Some cfg, ws_cameras = []\<rparr>)"
      by (simp add: dict_in_def)
    with assms show ?thesis
      by (auto simp: RTSPWebServer_init_def initialize_cameras_def add_cameras_keys)
  qed
next
  let ?s0 = "RTSPRecorder_init cfg t"
  have "trace ?s0 = []" "config ?s0 = cfg" by (simp_all add: RTSPRecorder_init_def)
  then have "emitted ?s0 (fst (run_for n env0 env ?s0)) = trace (fst (run_for n env0 env ?s0))"
    by (simp add: emitted_def)
  then show "Popen cid \<notin> set (trace (fst (run_for n env0 env ?s0)))"
    using run_for_Popen [of cid ?s0 n env0 env] assms \<open>config ?s0 = cfg\<close> by auto
next
  assume "config s = cfg"
  then show "Popen cid \<notin> set (emitted s (fst (run_startup env0 s)))"
    using start_enabled_Popen [of cid s env0 0 "cameras cfg"] assms
    by (auto simp: run_startup_def)
next
  assume "config s = cfg"
  then show "Popen cid \<notin> set (emitted s (fst (check_and_restart_recordings env0 s)))"
    using check_cameras_Popen [of cid s env0 0 "cameras cfg"] assms
    by (auto simp: check_and_restart_recordings_def)
qed

theorem disabled_camera_never_started_witness:
  "\<not> cfg_enabled example_cam2 \<and> cfg_id example_cam1 \<noteq> ''cam2'' \<and>
   \<not> dict_in ''cam2'' (ws_cameras (RTSPWebServer_init (Some example_config))) \<and>
   Popen ''cam2'' \<notin> set (trace (fst (run_for 3 (\<lambda>_. Spawned None [] []) (\<lambda>_ _. Spawned None [] [])
                                   (RTSPRecorder_init example_config 0)))) \<and>
   config example_recording = example_config \<and>
   Popen ''cam2'' \<notin> set (emitted example_recording
      (fst (check_and_restart_recordings (\<lambda>_. Spawned None [] []) example_recording)))"
proof -
  have h: "\<forall>c \<in> set (cameras example_config). cfg_id c = ''cam2'' \<longrightarrow> \<not> cfg_enabled c"
    by (simp add: example_config_def example_cam1_def example_cam2_def)
  have c: "config example_recording = example_config"
    by (simp add: example_recording_eq)
  have d: "\<not> cfg_enabled example_cam2" "cfg_id example_cam1 \<noteq> ''cam2''"
    by (simp_all add: example_cam1_def example_cam2_def)
  show ?thesis
    using d c disabled_camera_never_started [OF h, of 3 "\<lambda>_. Spawned None [] []"
        "\<lambda>_ _. Spawned None [] []" 0 example_recording]
    by blast
qed

section \<open>One recording per camera\<close>

text \<open>
  Claim C2. In every state that the supervisor reaches from its initial state by calls of
  \<open>start_recording\<close>, \<open>stop_recording\<close> and reconcile steps, with subprocesses exiting
  at any moment in between, a camera has at most one registered handle that is still
  running. And whenever the next call launches a subprocess for a camera, that camera has
  no registered running handle at the time of the call.
\<close>

theorem at_most_one_live_handle:
  "length (live_handles (fst (run_events es (RTSPRecorder_init cfg t))) cid) \<le> 1 \<and>
   (Popen cid \<in> set (emitted (fst (run_events es (RTSPRecorder_init cfg t)))
                       (fst (exec e (fst (run_events es (RTSPRecorder_init cfg t)))))) \<longrightarrow>
      \<not> is_recording (fst (run_events es (RTSPRecorder_init cfg t))) cid \<and>
      live_handles (fst (run_events es (RTSPRecorder_init cfg t))) cid = [])"
proof -
  let ?s = "fst (run_events es (RTSPRecorder_init cfg t))"
  have "distinct (map fst (processes (RTSPRecorder_init cfg t)))"
    by (simp add: RTSPRecorder_init_def)
  then have d: "distinct (map fst (processes ?s))" by (rule run_events_distinct)
  then have "length (live_handles ?s cid) \<le> 1" by (rule live_handles_le_one)
  moreover have "\<not> is_recording ?s cid \<and> live_handles ?s cid = []"
    if "Popen cid \<in> set (emitted ?s (fst (exec e ?s)))"
    using that d exec_Popen live_handles_empty by blast
  ultimately show ?thesis by blast
qed

theorem at_most_one_live_handle_witness:
  "Popen ''cam1'' \<in>
     set (emitted
            (fst (run_events [StartSegment example_cam1 (Spawned None [] []), ProcessExit 0 1]
                    (RTSPRecorder_init example_config 0)))
            (fst (exec (ReconcileCamera example_cam1 (Spawned None [] []))
                    (fst (run_events [StartSegment example_cam1 (Spawned None [] []), ProcessExit 0 1]
                            (RTSPRecorder_init example_config 0)))))) \<and>
   live_handles
     (fst (run_events [StartSegment example_cam1 (Spawned None [] []), ProcessExit 0 1]
             (RTSPRecorder_init example_config 0))) ''cam1'' = [] \<and>
   length (live_handles
     (fst (run_events [StartSegment example_cam1 (Spawned None [] [])]
             (RTSPRecorder_init example_config 0))) ''cam1'') \<le> 1"
proof -
  let ?es = "[StartSegment example_cam1 (Spawned None [] []), ProcessExit 0 1]"
  let ?s = "fst (run_events ?es (RTSPRecorder_init example_config 0))"
  have n: "\<not> is_recording (RTSPRecorder_init example_config 0) (cfg_id example_cam1)"
    by (simp add: RTSPRecorder_init_def is_recording_def)
  have s: "?s = process_exit 0 1 example_recording"
    by (simp add: and_then_fst_snd start_recording_started [OF n] example_recording_def)
  have r: "\<not> is_recording ?s ''cam1''"
    unfolding s by (simp add: example_recording_eq process_exit_def is_recording_def poll_def)
  have c: "cfg_id example_cam1 = ''cam1''" "cfg_enabled example_cam1"
    by (simp_all add: example_cam1_def)
  have h: "Popen ''cam1'' \<in>
     set (emitted ?s (fst (exec (ReconcileCamera example_cam1 (Spawned None [] [])) ?s)))"
    using r c by (simp only: exec.simps check_camera_Popen) simp
  show ?thesis
    using h
      at_most_one_live_handle [of ?es example_config 0 "''cam1''"
        "ReconcileCamera example_cam1 (Spawned None [] [])"]
      at_most_one_live_handle [of "[StartSegment example_cam1 (Spawned None [] [])]"
        example_config 0 "''cam1''" "ReconcileCamera example_cam1 (Spawned None [] [])"]
    by blast
qed

section \<open>The status line\<close>

text \<open>
  Claim C8 says that the main loop prints the status line once in every 300 time units,
  as the comment above line 219 does ("every 5 minutes"). The test of line 219 holds only
  when an iteration happens to reach it during a second that is a multiple of 300. Take
  the example configuration (reconnect delay 5) with a camera whose transcoder exits at
  once on every launch, and enter \<open>run\<close> at time 1699999799. The startup pass ends at
  1699999801; every iteration takes 7 time units (5 asleep, 2 for the settle delay), so
  iteration \<open>k\<close> reaches the test at 1699999801 + 7 k. In the first 43 iterations, which
  span 301 time units, no status line is printed.
\<close>

theorem status_line_missed:
  "status_lines (trace (fst (run_for 43 (\<lambda>_. Spawned (Some 1) [] ''Connection refused'')
                               (\<lambda>_ _. Spawned (Some 1) [] ''Connection refused'')
                               (RTSPRecorder_init example_config 1699999799)))) = [] \<and>
   now (fst (run_for 43 (\<lambda>_. Spawned (Some 1) [] ''Connection refused'')
                         (\<lambda>_ _. Spawned (Some 1) [] ''Connection refused'')
                         (RTSPRecorder_init example_config 1699999799))) = 1699999801 + 301"
proof -
  let ?l = "Spawned (Some 1) [] ''Connection refused''"
  let ?s = "RTSPRecorder_init example_config 1699999799"
  have n: "\<not> is_recording ?s (cfg_id example_cam1)"
    by (simp add: RTSPRecorder_init_def is_recording_def)
  have c: "cameras (config ?s) = [example_cam1, example_cam2]"
    "cfg_enabled example_cam1" "\<not> cfg_enabled example_cam2"
    by (simp_all add: RTSPRecorder_init_def example_config_def example_cam1_def example_cam2_def)
  have "snd (start_recording example_cam1 ?l ?s) = None"
    by (simp add: start_recording_returns)
  then have st: "run_startup (\<lambda>_. ?l) ?s = (fst (start_recording example_cam1 ?l ?s), None)"
    by (simp add: run_startup_def c and_then_ok)
  let ?s1 = "fst (start_recording example_cam1 ?l ?s)"
  let ?s2 = "emit [Print (ActiveAtStart (length (processes ?s1)))] ?s1"
  note e = start_recording_exited [OF n, of 1 "[]" "''Connection refused''"]
  have s2: "config ?s2 = example_config" "processes ?s2 = []" "running ?s2"
    "now ?s2 = of_int 1699999801"
    "status_lines (trace ?s2) = []"
    unfolding e by (simp_all add: RTSPRecorder_init_def emit_def status_lines_def)
  note k = no_multiple_of_300
  note l = failing_loop [OF s2(1-4) k, of 0 1 "[]" "''Connection refused''"]
  let ?s3 = "fst (run_loop 43 0 (\<lambda>_ _. ?l) ?s2)"
  have "prefix (trace ?s2) (trace ?s3)" using run_loop_frame by blast
  then have "trace ?s3 = trace ?s2 @ emitted ?s2 ?s3" by (rule trace_emitted)
  then have "status_lines (trace ?s3) = []"
    using s2(5) l by (simp add: status_lines_def)
  moreover have "now ?s3 = 1699999801 + 301" using l by simp
  moreover have "run_for 43 (\<lambda>_. ?l) (\<lambda>_ _. ?l) ?s = run_loop 43 0 (\<lambda>_ _. ?l) ?s2"
    by (simp add: run_for_def st and_then_def)
  ultimately show ?thesis by simp
qed

section \<open>The frame cache\<close>

text \<open>
  Claim C9. A worker on which no frame has been read returns no frame from \<open>get_frame\<close>
  at any time, also at times within 10 units of the initial \<open>last_frame_time = 0\<close>:
  this holds for the new worker and after any steps of the capture thread among which no
  \<open>read()\<close> returned a frame. In any state, \<open>get_frame\<close> returns a frame only if one is
  cached and it is less than 10 time units old.
\<close>

theorem get_frame_without_frame:
  "fst (get_frame t (CameraStream_init camera)) = None \<and>
   ((\<forall>a \<in> set as. \<forall>img t'. a \<noteq> Frame img t') \<longrightarrow>
      last_frame (capture_steps as (start (CameraStream_init camera))) = None \<and>
      last_frame_time (capture_steps as (start (CameraStream_init camera))) = 0 \<and>
      fst (get_frame t (capture_steps as (start (CameraStream_init camera)))) = None) \<and>
   (fst (get_frame t s) \<noteq> None \<longrightarrow> last_frame s \<noteq> None \<and> t - last_frame_time s < 10)"
proof (intro conjI impI)
  show "fst (get_frame t (CameraStream_init camera)) = None"
    by (simp add: get_frame_def CameraStream_init_def)
next
  assume a: "\<forall>a \<in> set as. \<forall>img t'. a \<noteq> Frame img t'"
  let ?s = "capture_steps as (start (CameraStream_init camera))"
  have i: "last_frame (start (CameraStream_init camera)) = None"
    "last_frame_time (start (CameraStream_init camera)) = 0"
    by (simp_all add: start_def CameraStream_init_def)
  from capture_steps_no_frame [OF a, of "start (CameraStream_init camera)"] i
  show l: "last_frame ?s = None" and "last_frame_time ?s = 0" by simp_all
  then show "fst (get_frame t ?s) = None" by (simp add: get_frame_def)
next
  assume "fst (get_frame t s) \<noteq> None"
  then have c: "last_frame s \<noteq> None" "fsub t (last_frame_time s) < 10"
    by (simp_all add: get_frame_cases split: if_splits)
  show "last_frame s \<noteq> None" by (rule c)
  show "t - last_frame_time s < 10"
  proof (rule ccontr)
    assume "\<not> t - last_frame_time s < 10"
    then have "10 \<le> fsub t (last_frame_time s)" by (simp add: fsub_ge_10)
    with c(2) show False by simp
  qed
qed

theorem get_frame_without_frame_witness:
  "fst (get_frame 5 (capture_steps [Go, Opened False, Go, Opened True, NoFrame, Go]
                       (start (CameraStream_init example_cam1)))) = None \<and>
   fst (get_frame 3 (frame_writes [([1, 2, 3], 1)] (CameraStream_init example_cam1))) \<noteq> None \<and>
   last_frame (frame_writes [([1, 2, 3], 1)] (CameraStream_init example_cam1)) \<noteq> None \<and>
   (3::real) - last_frame_time (frame_writes [([1, 2, 3], 1)] (CameraStream_init example_cam1)) < 10"
proof -
  have h: "\<forall>a \<in> set [Go, Opened False, Go, Opened True, NoFrame, Go]. \<forall>img t'. a \<noteq> Frame img t'"
    by simp
  have "fsub 3 1 < 10" by code_simp
  then have g: "fst (get_frame 3 (frame_writes [([1, 2, 3], 1)] (CameraStream_init example_cam1))) \<noteq> None"
    by (simp add: get_frame_def frame_writes_def write_frame_def CameraStream_init_def)
  show ?thesis
    using h g
      get_frame_without_frame [of 5 example_cam1 "[Go, Opened False, Go, Opened True, NoFrame, Go]"
        "frame_writes [([1, 2, 3], 1)] (CameraStream_init example_cam1)"]
      get_frame_without_frame [of 3 example_cam1 "[Go, Opened False, Go, Opened True, NoFrame, Go]"
        "frame_writes [([1, 2, 3], 1)] (CameraStream_init example_cam1)"]
    by simp
qed




section \<open>Stopping a camera worker\<close>

text \<open>
  Claim C3 says that after \<open>stop()\<close> the capture object has been released exactly once,
  also when the capture thread does not finish within the join timeout. \<open>stop()\<close>
  releases what \<open>self.cap\<close> holds when the join returns (\<open>stop_while_reading\<close>), but the
  capture thread may still be inside \<open>cv2.VideoCapture(url)\<close> then: \<open>stop()\<close> sets
  \<open>running\<close> to false, the join times out, \<open>self.cap\<close> is still \<open>None\<close> and nothing is
  released. When \<open>cv2.VideoCapture\<close> returns afterwards, the thread stores the open
  capture object in \<open>self.cap\<close>, reads a frame and leaves its loop at the next test of
  \<open>running\<close>: the capture object (number 0) stays open and is never released.
\<close>

theorem stop_during_connect_leaks:
  "thread (capture_steps [Opened True, Frame img t, Go]
             (stop [] (capture_steps [Go] (start (CameraStream_init camera))))) = Some Finished \<and>
   cap (capture_steps [Opened True, Frame img t, Go]
          (stop [] (capture_steps [Go] (start (CameraStream_init camera))))) = Some 0 \<and>
   is_open (capture_steps [Opened True, Frame img t, Go]
              (stop [] (capture_steps [Go] (start (CameraStream_init camera))))) 0 \<and>
   releases (capture_steps [Opened True, Frame img t, Go]
               (stop [] (capture_steps [Go] (start (CameraStream_init camera))))) 0 = 0"
proof -
  let ?s1 = "capture_steps [Go] (start (CameraStream_init camera))"
  have s2: "stop [] ?s1 = (CameraStream_init camera)\<lparr>cs_running := False, thread := Some InConnect\<rparr>"
    unfolding connecting_state
    by (simp add: stop_def capture_steps_def CameraStream_init_def)
  show ?thesis
    unfolding s2
    by (simp add: capture_steps_def capture_step_def write_frame_def CameraStream_init_def Let_def)
qed

text \<open>
  A second schedule releases the same capture object twice: \<open>read()\<close> returns without a
  frame during the join, the thread calls \<open>release()\<close> (line 88), the join times out
  before the thread clears \<open>self.cap\<close> (line 89), and \<open>stop()\<close> releases it again.
\<close>

lemma stop_after_failed_read_releases_twice:
  "releases (stop [NoFrame] (capture_steps [Go, Opened True] (start (CameraStream_init camera)))) 0 = 2"
  by (simp add: stop_def capture_steps_def capture_step_def release_def start_def
      CameraStream_init_def Let_def)

end
